theory Spec2Isabelle
  imports Complex_Main "HOL-Library.List_Lexorder" "HOL-Library.Char_ord" "HOL-Library.Multiset"
begin

section \<open>Strings, paths and integer parsing\<close>

text \<open>
  The converter of \<^verbatim>\<open>tool.py\<close> works on file names and paths. A Python \<^verbatim>\<open>str\<close> is
  modelled as a \<^typ>\<open>string\<close> holding its UTF-8 bytes: the lexicographic order of
  \<^typ>\<open>char list\<close> (by byte value) is then the order Python's \<^verbatim>\<open>list.sort()\<close> uses on
  strings (by code point). The library functions below follow CPython's \<^verbatim>\<open>posixpath\<close> and
  \<^verbatim>\<open>genericpath\<close>.
\<close>

type_synonym path = string

definition lower_char :: "char \<Rightarrow> char" where
  "lower_char c =
     (case map_of (zip ''ABCDEFGHIJKLMNOPQRSTUVWXYZ'' ''abcdefghijklmnopqrstuvwxyz'') c of
        Some l \<Rightarrow> l
      | None \<Rightarrow> c)"

text \<open>\<^verbatim>\<open>str.lower()\<close>, on ASCII letters.\<close>

definition lower :: "string \<Rightarrow> string" where
  "lower s = map lower_char s"

text \<open>\<^verbatim>\<open>str.rfind(c)\<close>: the last index of \<open>c\<close>, or \<open>-1\<close>.\<close>

fun rfind :: "string \<Rightarrow> char \<Rightarrow> int" where
  "rfind [] c = - 1"
| "rfind (x # xs) c =
     (let r = rfind xs c in if 0 \<le> r then r + 1 else if x = c then 0 else - 1)"

text \<open>
  \<^verbatim>\<open>os.path.splitext\<close> (\<^verbatim>\<open>genericpath._splitext\<close> with separator \<^verbatim>\<open>/\<close>): the extension
  starts at the last dot, provided that dot comes after the last separator and some
  character between the separator and the dot is not a dot (leading dots belong to the
  root).
\<close>

definition splitext :: "path \<Rightarrow> string \<times> string" where
  "splitext p =
     (let sepIndex = rfind p (CHR ''/'');
          dotIndex = rfind p (CHR ''.'')
      in if sepIndex < dotIndex \<and>
            list_ex (\<lambda>filenameIndex. p ! filenameIndex \<noteq> CHR ''.'')
              [nat (sepIndex + 1)..<nat dotIndex]
         then (take (nat dotIndex) p, drop (nat dotIndex) p)
         else (p, []))"

text \<open>\<^verbatim>\<open>os.path.join(a, b)\<close> of \<^verbatim>\<open>posixpath\<close>.\<close>

definition join :: "path \<Rightarrow> string \<Rightarrow> path" where
  "join a b =
     (if b \<noteq> [] \<and> hd b = CHR ''/'' then b
      else if a = [] \<or> last a = CHR ''/'' then a @ b
      else a @ ''/'' @ b)"

text \<open>\<^verbatim>\<open>os.path.basename\<close> of \<^verbatim>\<open>posixpath\<close>: what follows the last separator.\<close>

definition basename :: "path \<Rightarrow> string" where
  "basename p = drop (nat (rfind p (CHR ''/'') + 1)) p"

text \<open>
  \<^verbatim>\<open>int(s)\<close> for a string of ASCII characters, base 10, as \<^verbatim>\<open>PyLong_FromString\<close> reads
  it: the white space of \<^verbatim>\<open>Py_ISSPACE\<close> is skipped at both ends (the characters 0x09 to
  0x0D and the space, and no other: the separators 0x1C to 0x1F are not skipped), one
  sign is allowed, then digits follow, where single underscores may separate digits.
  \<open>None\<close> stands for the \<^verbatim>\<open>ValueError\<close> that \<^verbatim>\<open>int\<close> raises on every other string.
\<close>

definition is_space :: "char \<Rightarrow> bool" where
  "is_space c = (c \<in> set [CHR 0x09, CHR 0x0A, CHR 0x0B, CHR 0x0C, CHR 0x0D, CHR 0x20])"

definition strip :: "string \<Rightarrow> string" where
  "strip s = rev (dropWhile is_space (rev (dropWhile is_space s)))"

definition is_digit :: "char \<Rightarrow> bool" where
  "is_digit c = (CHR ''0'' \<le> c \<and> c \<le> CHR ''9'')"

definition digit_val :: "char \<Rightarrow> nat" where
  "digit_val c = of_char c - 48"

fun parse_digits :: "nat \<Rightarrow> string \<Rightarrow> nat option" where
  "parse_digits acc [] = Some acc"
| "parse_digits acc [c] =
     (if is_digit c then Some (10 * acc + digit_val c) else None)"
| "parse_digits acc (c # d # ds) =
     (if is_digit c then parse_digits (10 * acc + digit_val c) (d # ds)
      else if c = CHR ''_'' \<and> is_digit d then parse_digits (10 * acc + digit_val d) ds
      else None)"

definition parse_unsigned :: "string \<Rightarrow> nat option" where
  "parse_unsigned s =
     (case s of
        [] \<Rightarrow> None
      | c # cs \<Rightarrow> if is_digit c then parse_digits (digit_val c) cs else None)"

definition py_int :: "string \<Rightarrow> int option" where
  "py_int s =
     (case strip s of
        [] \<Rightarrow> None
      | c # cs \<Rightarrow>
          if c = CHR ''-'' then map_option (\<lambda>n. - int n) (parse_unsigned cs)
          else if c = CHR ''+'' then map_option int (parse_unsigned cs)
          else map_option int (parse_unsigned (c # cs)))"

text \<open>Whether every character of a string is an ASCII character.\<close>

definition is_ascii :: "string \<Rightarrow> bool" where
  "is_ascii s = list_all (\<lambda>c. (of_char c :: nat) < 128) s"

text \<open>\<^verbatim>\<open>str(n)\<close> for a non-negative integer, as the f-strings of the source format it.\<close>

fun str_nat :: "nat \<Rightarrow> string" where
  "str_nat n =
     (if n < 10 then [''0123456789'' ! n]
      else str_nat (n div 10) @ [''0123456789'' ! (n mod 10)])"

section \<open>The file system and the libraries\<close>

text \<open>
  What a file holds. A PDF document is the list of its pages, each page named by the path
  of the image it shows; a ZIP archive is the list of its entries (name and content);
  any other file is known by its size in bytes only. A path that maps to \<open>None\<close> does not
  exist. Directories are not files of this map: the paths the converter writes to and
  tests are taken to be file paths.
\<close>

datatype content = Pdf "path list" | Zip "(string \<times> content) list" | Data nat

type_synonym filesystem = "path \<Rightarrow> content option"

text \<open>\<^verbatim>\<open>os.path.exists(p)\<close> and \<^verbatim>\<open>os.path.getsize(p) > 0\<close>. A PDF document and a ZIP
  archive always hold some bytes (a header, an end record).\<close>

definition exists_path :: "filesystem \<Rightarrow> path \<Rightarrow> bool" where
  "exists_path fs p = (fs p \<noteq> None)"

definition size_positive :: "filesystem \<Rightarrow> path \<Rightarrow> bool" where
  "size_positive fs p =
     (case fs p of
        Some (Data n) \<Rightarrow> 0 < n
      | Some (Pdf pages) \<Rightarrow> True
      | Some (Zip entries) \<Rightarrow> True
      | None \<Rightarrow> False)"

text \<open>What \<^verbatim>\<open>os.scandir\<close> yields: the directory is missing (\<^verbatim>\<open>FileNotFoundError\<close>), the
  listing fails otherwise, or the entries in the order of the operating system, each
  with its name and whether \<^verbatim>\<open>is_file()\<close> or \<^verbatim>\<open>is_dir()\<close> holds.\<close>

datatype kind = RegularFile | SubDirectory | OtherEntry

datatype scan = NoSuchDirectory | ScanError | Entries "(string \<times> kind) list"

text \<open>
  The environment of a run: which optional libraries are installed, what the directories
  list, and which calls into the operating system and the libraries succeed. A call that
  does not succeed raises an exception and leaves the files as they were; a file that
  was opened for writing is written in full.
  \<^item> \<open>IMG2PDF_AVAILABLE\<close>: the module flag of lines 10-14;
  \<^item> \<open>PyPDF2_available\<close>: whether \<^verbatim>\<open>from PyPDF2 import PdfMerger\<close> succeeds;
  \<^item> \<open>int_other\<close>: what \<^verbatim>\<open>int(s)\<close> gives for a string that holds a character outside
    ASCII or is longer than 640 characters, \<open>None\<close> when it raises (see \<open>int_str\<close> below);
  \<^item> \<open>scandir\<close>: the listing of a directory;
  \<^item> \<open>makedirs_ok\<close>: whether the parent directory of a destination can be made;
  \<^item> \<open>writable\<close>: whether a file can be opened for writing at a path;
  \<^item> \<open>img2pdf_ok\<close>: whether \<^verbatim>\<open>img2pdf.convert\<close> encodes a list of image files;
  \<^item> \<open>Image_mode\<close>: the mode of the image that \<^verbatim>\<open>Image.open\<close> returns for a path, \<open>None\<close>
    when it raises. \<^verbatim>\<open>Image.open\<close> reads the header of the file only: the pixels are decoded
    later, by \<^verbatim>\<open>convert\<close> or by \<^verbatim>\<open>save\<close>;
  \<^item> \<open>extra_frames\<close>: the number of frames of the image file at a path beyond the first
    (an animated PNG or WebP image, or a multi-picture JPEG, has some);
  \<^item> \<open>convert_ok\<close>: whether \<^verbatim>\<open>convert('RGB')\<close>, which decodes the image, succeeds on the
    image of a path;
  \<^item> \<open>decode_ok\<close>: whether the pixels of the image file at a path decode when \<^verbatim>\<open>save\<close>
    comes to an image that has not been decoded yet;
  \<^item> \<open>save_ok\<close>: whether PIL encodes the decoded images of the given paths as one PDF;
  \<^item> \<open>close_ok\<close>: whether \<^verbatim>\<open>close()\<close> succeeds on an image of a path;
  \<^item> \<open>mkdtemp\<close>: the fresh directory of \<^verbatim>\<open>tempfile.TemporaryDirectory()\<close>, \<open>None\<close> when it
    raises.
\<close>

record env =
  IMG2PDF_AVAILABLE :: bool
  PyPDF2_available :: bool
  int_other :: "string \<Rightarrow> int option"
  scandir :: "path \<Rightarrow> scan"
  makedirs_ok :: "path \<Rightarrow> bool"
  writable :: "path \<Rightarrow> bool"
  img2pdf_ok :: "path list \<Rightarrow> bool"
  Image_mode :: "path \<Rightarrow> string option"
  extra_frames :: "path \<Rightarrow> nat"
  convert_ok :: "path \<Rightarrow> bool"
  decode_ok :: "path \<Rightarrow> bool"
  save_ok :: "path list \<Rightarrow> bool"
  close_ok :: "path \<Rightarrow> bool"
  mkdtemp :: "path option"

text \<open>
  \<^verbatim>\<open>int(s)\<close> for any string. On a string of at most 640 ASCII characters it is \<open>py_int\<close>.
  On a string with a character outside ASCII, \<^verbatim>\<open>int\<close> takes the decimal digits and the white
  space of Unicode as well; on a longer string, the limit on the digits of an integer
  (\<^verbatim>\<open>sys.set_int_max_str_digits\<close>: none, or at least 640) may make it raise. For these
  strings the result is the environment's.
\<close>

definition int_str :: "env \<Rightarrow> string \<Rightarrow> int option" where
  "int_str env s = (if is_ascii s \<and> length s \<le> 640 then py_int s else int_other env s)"

text \<open>
  An image object of PIL: \<open>ident\<close> tells the objects apart (two variables of the
  converter may refer to one object), \<open>source\<close> is the file it was opened from, \<open>mode\<close>
  its mode, \<open>n_frames\<close> the number of its frames, and \<open>loaded\<close> whether its pixels have
  been decoded.
\<close>

record image =
  ident :: nat
  source :: path
  mode :: string
  n_frames :: nat
  loaded :: bool

section \<open>Sorting with a key that may raise\<close>

text \<open>
  \<^verbatim>\<open>list.sort(key=f)\<close> first computes the key of every element, in order. If a key
  raises, the exception leaves the method and the list is as it was. Otherwise the list
  is sorted by the keys, and elements with equal keys keep their order.
\<close>

fun keys_of :: "('a \<Rightarrow> int option) \<Rightarrow> 'a list \<Rightarrow> int list option" where
  "keys_of key [] = Some []"
| "keys_of key (x # xs) =
     (case key x of
        None \<Rightarrow> None
      | Some k \<Rightarrow> (case keys_of key xs of None \<Rightarrow> None | Some ks \<Rightarrow> Some (k # ks)))"

definition list_sort_key :: "('a \<Rightarrow> int option) \<Rightarrow> 'a list \<Rightarrow> 'a list option" where
  "list_sort_key key xs =
     (case keys_of key xs of
        None \<Rightarrow> None
      | Some ks \<Rightarrow> Some (map snd (sort_key fst (zip ks xs))))"

text \<open>Lines 52-55 of \<^verbatim>\<open>images_to_pdf\<close>: the numeric sort and its fallback.\<close>

definition image_key :: "env \<Rightarrow> string \<Rightarrow> int option" where
  "image_key env x = int_str env (fst (splitext x))"

definition sort_image_files :: "env \<Rightarrow> string list \<Rightarrow> string list" where
  "sort_image_files env image_files =
     (case list_sort_key (image_key env) image_files of
        Some by_number \<Rightarrow> by_number
      | None \<Rightarrow> sort image_files)"

text \<open>Lines 202-205 of \<^verbatim>\<open>batch_chapter_to_pdfs\<close>: the same, with \<^verbatim>\<open>key=int\<close>.\<close>

definition sort_chapters :: "env \<Rightarrow> string list \<Rightarrow> string list" where
  "sort_chapters env chapters =
     (case list_sort_key (int_str env) chapters of
        Some by_number \<Rightarrow> by_number
      | None \<Rightarrow> sort chapters)"

section \<open>The format classifier\<close>

text \<open>
  \<^verbatim>\<open>get_image_formats\<close> (lines 21-29): the set of lower-cased extensions, and whether one
  of them is outside the three that \<^verbatim>\<open>img2pdf\<close> takes.
\<close>

definition get_image_formats :: "path \<Rightarrow> string list \<Rightarrow> string set \<times> bool" where
  "get_image_formats image_dir image_files =
     fold (\<lambda>filename (formats, unsupported_by_img2pdf).
             let ext = lower (snd (splitext filename))
             in (insert ext formats,
                 if ext \<notin> {''.jpg'', ''.jpeg'', ''.png''} then True
                 else unsupported_by_img2pdf))
          image_files ({}, False)"

section \<open>Batches\<close>

definition BATCH_SIZE :: nat where
  "BATCH_SIZE = 10"

text \<open>Line 87: \<^verbatim>\<open>(total_images + BATCH_SIZE - 1) // BATCH_SIZE\<close>.\<close>

definition batch_count :: "nat \<Rightarrow> nat" where
  "batch_count total_images = (total_images + BATCH_SIZE - 1) div BATCH_SIZE"

text \<open>The slice \<^verbatim>\<open>xs[i:j]\<close> for indices that are not negative.\<close>

definition py_slice :: "'a list \<Rightarrow> nat \<Rightarrow> nat \<Rightarrow> 'a list" where
  "py_slice xs i j = take (j - i) (drop i xs)"

text \<open>Lines 91-93: the files of the batch with index \<open>batch_index\<close>.\<close>

definition batch_files_pil :: "string list \<Rightarrow> nat \<Rightarrow> string list" where
  "batch_files_pil image_files batch_index =
     (let total_images = length image_files;
          start_idx = batch_index * BATCH_SIZE;
          end_idx = min (start_idx + BATCH_SIZE) total_images
      in py_slice image_files start_idx end_idx)"

section \<open>The PDF merger\<close>

text \<open>
  Lines 160-164 of \<^verbatim>\<open>merge_pdfs\<close>: every path that exists with a positive size is appended
  to the merger, which reads it as a PDF document and raises (\<open>None\<close>) when it is not
  one; every other path is skipped. \<open>inputs\<close> is \<^verbatim>\<open>merger.inputs\<close>: the appended paths,
  each with the pages read from it.
\<close>

fun append_valid ::
  "filesystem \<Rightarrow> path list \<Rightarrow> (path \<times> path list) list \<Rightarrow> (path \<times> path list) list option"
where
  "append_valid fs [] inputs = Some inputs"
| "append_valid fs (pdf # rest) inputs =
     (if exists_path fs pdf \<and> size_positive fs pdf
      then (case fs pdf of
              Some (Pdf pages) \<Rightarrow> append_valid fs rest (inputs @ [(pdf, pages)])
            | _ \<Rightarrow> None)
      else append_valid fs rest inputs)"

text \<open>\<^verbatim>\<open>merge_pdfs\<close> (lines 152-177): \<open>False\<close> on every exception and when the merger holds
  no input; otherwise the destination holds the pages of the inputs, in order.\<close>

definition merge_pdfs :: "env \<Rightarrow> path list \<Rightarrow> path \<Rightarrow> filesystem \<Rightarrow> bool \<times> filesystem" where
  "merge_pdfs env pdf_paths output_path fs =
     (if \<not> PyPDF2_available env then (False, fs)
      else case append_valid fs pdf_paths [] of
             None \<Rightarrow> (False, fs)
           | Some inputs \<Rightarrow>
               if inputs = [] then (False, fs)
               else if \<not> writable env output_path then (False, fs)
               else (True, fs(output_path \<mapsto> Pdf (concat (map snd inputs)))))"

section \<open>The directory converter\<close>

text \<open>Lines 40-47: the names of the regular files with an allowed extension, in the
  order of the listing.\<close>

definition allowed_extensions :: "string set" where
  "allowed_extensions = {''.jpg'', ''.jpeg'', ''.png'', ''.webp'', ''.bmp''}"

definition list_images :: "(string \<times> kind) list \<Rightarrow> string list" where
  "list_images entries =
     map fst (filter (\<lambda>(name, k). k = RegularFile \<and>
                                   lower (snd (splitext name)) \<in> allowed_extensions) entries)"

text \<open>
  Lines 70-79, the fast path: the destination is opened for writing (which creates it,
  empty), \<^verbatim>\<open>img2pdf.convert\<close> encodes the whole list, and the bytes are written. The
  result is \<open>False\<close> when an exception was caught.
\<close>

definition fast_path :: "env \<Rightarrow> path \<Rightarrow> string list \<Rightarrow> path \<Rightarrow> filesystem \<Rightarrow> bool \<times> filesystem" where
  "fast_path env image_dir image_files output_pdf_path fs =
     (let img_paths = map (join image_dir) image_files
      in if \<not> writable env output_pdf_path then (False, fs)
         else if \<not> img2pdf_ok env img_paths then (False, fs(output_pdf_path \<mapsto> Data 0))
         else (True, fs(output_pdf_path \<mapsto> Pdf img_paths)))"

text \<open>
  The state of the batch loop (lines 84-126). Its first four fields are the file system
  and the variables \<^verbatim>\<open>temp_pdfs\<close>, \<^verbatim>\<open>batch_images_pil\<close> and \<^verbatim>\<open>img\<close> of the source, the last
  being \<open>None\<close> until its first assignment. The others record what the run does and are
  not variables of the source:
  \<^item> \<open>created\<close>: the number of image objects made so far, from which a new object takes
    its \<open>ident\<close>;
  \<^item> \<open>closed_ids\<close>: the objects on which \<^verbatim>\<open>close()\<close> has succeeded;
  \<^item> \<open>peak\<close>: the greatest number of image objects held at once so far;
  \<^item> \<open>slices\<close>: the values that \<^verbatim>\<open>batch_files_pil\<close> has taken, one for every turn of the
    loop over the batches, in order.
\<close>

record pil_state =
  st_files :: filesystem
  temp_pdfs :: "path list"
  batch_images_pil :: "image list"
  img :: "image option"
  created :: nat
  closed_ids :: "nat list"
  peak :: nat
  slices :: "string list list"

text \<open>
  The image objects that the converter holds: those to which \<^verbatim>\<open>batch_images_pil\<close> or
  \<^verbatim>\<open>img\<close> refers and that are not closed, each counted once. An object to which no variable
  refers any more is released at once (CPython counts references); \<^verbatim>\<open>close()\<close> releases the
  pixels of an object that is still referred to. An object that is held may hold decoded
  pixels.
\<close>

definition referenced :: "pil_state \<Rightarrow> image list" where
  "referenced s = batch_images_pil s @ (case img s of None \<Rightarrow> [] | Some i \<Rightarrow> [i])"

definition held :: "pil_state \<Rightarrow> nat" where
  "held s =
     length (remdups (filter (\<lambda>n. n \<notin> set (closed_ids s)) (map ident (referenced s))))"

text \<open>The record of the peak: \<open>fresh\<close> counts the objects that exist beside the held
  ones at this moment, made by the right-hand side of an assignment that has not taken
  place yet.\<close>

definition observe :: "nat \<Rightarrow> pil_state \<Rightarrow> pil_state" where
  "observe fresh s = s\<lparr>peak := max (peak s) (held s + fresh)\<rparr>"

text \<open>
  An assignment \<^verbatim>\<open>img = e\<close> whose right-hand side makes the image object \<open>new\<close>. While
  \<open>e\<close> is evaluated, \<^verbatim>\<open>img\<close> still refers to its former object, so the new object exists
  beside all that is held; then \<^verbatim>\<open>img\<close> refers to the new object, and the former one is
  released unless the list refers to it.
\<close>

definition assign_img :: "image \<Rightarrow> pil_state \<Rightarrow> pil_state" where
  "assign_img new s =
     observe 0 ((observe 1 (s\<lparr>created := Suc (created s)\<rparr>))\<lparr>img := Some new\<rparr>)"

text \<open>Line 103: \<^verbatim>\<open>batch_images_pil.append(img)\<close>.\<close>

definition append_img :: "pil_state \<Rightarrow> pil_state" where
  "append_img s =
     (case img s of
        None \<Rightarrow> s
      | Some i \<Rightarrow> observe 0 (s\<lparr>batch_images_pil := batch_images_pil s @ [i]\<rparr>))"

text \<open>
  Lines 98-106, the body of the loop over the files of a batch. \<^verbatim>\<open>Image.open\<close> makes an
  object whose pixels are not decoded, with all the frames of the file. Unless its mode
  is RGB, \<^verbatim>\<open>convert('RGB')\<close> decodes it and makes a second object, of one frame, while
  \<^verbatim>\<open>img\<close> still refers to the first. When \<^verbatim>\<open>Image.open\<close> raises, nothing has changed; when
  \<^verbatim>\<open>convert\<close> raises, \<^verbatim>\<open>img\<close> keeps referring to the opened object, which nothing closes.
  In both cases the file is skipped.
\<close>

definition open_image :: "env \<Rightarrow> path \<Rightarrow> string \<Rightarrow> pil_state \<Rightarrow> pil_state" where
  "open_image env image_dir filename s =
     (let img_path = join image_dir filename
      in case Image_mode env img_path of
           None \<Rightarrow> s
         | Some m \<Rightarrow>
             let s1 = assign_img
                        \<lparr>ident = created s, source = img_path, mode = m,
                         n_frames = Suc (extra_frames env img_path), loaded = False\<rparr> s
             in if m \<noteq> ''RGB'' then
                  (if convert_ok env img_path
                   then append_img
                          (assign_img
                             \<lparr>ident = created s1, source = img_path, mode = ''RGB'',
                              n_frames = 1, loaded = True\<rparr> s1)
                   else s1)
                else append_img s1)"

text \<open>Lines 97-106: the loop over the files of a batch.\<close>

definition open_images :: "env \<Rightarrow> path \<Rightarrow> string list \<Rightarrow> pil_state \<Rightarrow> pil_state" where
  "open_images env image_dir batch_files s = fold (open_image env image_dir) batch_files s"

text \<open>The pages that \<^verbatim>\<open>save\<close> with \<^verbatim>\<open>save_all=True\<close> writes for an image: one for each of
  its frames. A page is named by the path of the image file it shows.\<close>

definition image_pages :: "image \<Rightarrow> path list" where
  "image_pages i = replicate (n_frames i) (source i)"

text \<open>
  Lines 112-120: the images of the batch are saved as one PDF in the temporary
  directory, and its path is appended to \<^verbatim>\<open>temp_pdfs\<close>. \<^verbatim>\<open>save\<close> decodes every image that
  is not decoded yet. When decoding, encoding or writing raises, the handler of line 119
  takes the exception, and the batch adds nothing. What a failed \<^verbatim>\<open>save\<close> may leave at the
  path is not modelled: it lies in the temporary directory, its path does not join
  \<^verbatim>\<open>temp_pdfs\<close>, and it is removed with the directory.
\<close>

definition save_batch :: "env \<Rightarrow> path \<Rightarrow> image \<Rightarrow> image list \<Rightarrow> pil_state \<Rightarrow> pil_state" where
  "save_batch env temp_pdf_path first append_images s =
     (let images = first # append_images
      in if list_all (\<lambda>i. loaded i \<or> decode_ok env (source i)) images \<and>
            save_ok env (map source images) \<and> writable env temp_pdf_path
         then s\<lparr>st_files := (st_files s)(temp_pdf_path \<mapsto> Pdf (concat (map image_pages images))),
                temp_pdfs := temp_pdfs s @ [temp_pdf_path]\<rparr>
         else s)"

text \<open>Line 112: the path of the partial PDF of a batch.\<close>

definition temp_pdf_path :: "path \<Rightarrow> nat \<Rightarrow> path" where
  "temp_pdf_path temp_dir batch_index =
     join temp_dir (''temp_batch_'' @ str_nat (batch_index + 1) @ ''.pdf'')"

text \<open>Lines 122-125: \<^verbatim>\<open>img\<close> runs over the images of the batch, and each is closed; an
  exception of \<^verbatim>\<open>close()\<close> is passed over. Then the list is cleared.\<close>

definition close_image :: "env \<Rightarrow> image \<Rightarrow> pil_state \<Rightarrow> pil_state" where
  "close_image env i s =
     observe 0
       (if close_ok env (source i)
        then s\<lparr>img := Some i, closed_ids := ident i # closed_ids s\<rparr>
        else s\<lparr>img := Some i\<rparr>)"

definition close_images :: "env \<Rightarrow> pil_state \<Rightarrow> pil_state" where
  "close_images env s =
     observe 0 ((fold (close_image env) (batch_images_pil s) s)\<lparr>batch_images_pil := []\<rparr>)"

text \<open>
  Lines 90-126, one turn of the loop over the batches: the slice of the batch is taken
  (lines 91-93), the list is made empty (line 96), the files of the slice are opened,
  and, unless no image was opened (line 108), the batch is saved and its images are
  closed.
\<close>

definition process_batch ::
  "env \<Rightarrow> path \<Rightarrow> path \<Rightarrow> string list \<Rightarrow> nat \<Rightarrow> pil_state \<Rightarrow> pil_state"
where
  "process_batch env image_dir temp_dir image_files batch_index s =
     (let batch_files = batch_files_pil image_files batch_index;
          s0 = observe 0 (s\<lparr>slices := slices s @ [batch_files], batch_images_pil := []\<rparr>);
          s1 = open_images env image_dir batch_files s0
      in case batch_images_pil s1 of
           [] \<Rightarrow> s1
         | first # append_images \<Rightarrow>
             close_images env
               (save_batch env (temp_pdf_path temp_dir batch_index) first append_images s1))"

text \<open>Lines 84-126: the loop over the batches, from the state in which nothing has been
  opened.\<close>

definition run_batches :: "env \<Rightarrow> path \<Rightarrow> path \<Rightarrow> string list \<Rightarrow> filesystem \<Rightarrow> pil_state" where
  "run_batches env image_dir temp_dir image_files fs =
     fold (process_batch env image_dir temp_dir image_files)
       [0..<batch_count (length image_files)]
       \<lparr>st_files = fs, temp_pdfs = [], batch_images_pil = [], img = None, created = 0,
        closed_ids = [], peak = 0, slices = []\<rparr>"

text \<open>\<^verbatim>\<open>shutil.copy2(src, dst)\<close>: \<open>None\<close> when it raises.\<close>

definition copy2 :: "env \<Rightarrow> path \<Rightarrow> path \<Rightarrow> filesystem \<Rightarrow> filesystem option" where
  "copy2 env src dst fs =
     (case fs src of
        None \<Rightarrow> None
      | Some c \<Rightarrow> if writable env dst then Some (fs(dst \<mapsto> c)) else None)"

text \<open>Lines 128-140: what becomes of the partial PDFs. An exception of \<^verbatim>\<open>copy2\<close> is caught
  at line 142.\<close>

definition finish_batches :: "env \<Rightarrow> path list \<Rightarrow> path \<Rightarrow> filesystem \<Rightarrow> path option \<times> filesystem" where
  "finish_batches env temp_pdfs_list output_pdf_path fs =
     (if temp_pdfs_list \<noteq> [] then
        (if length temp_pdfs_list = 1 then
           (case copy2 env (temp_pdfs_list ! 0) output_pdf_path fs of
              None \<Rightarrow> (None, fs)
            | Some fs' \<Rightarrow> (Some output_pdf_path, fs'))
         else
           (case merge_pdfs env temp_pdfs_list output_pdf_path fs of
              (True, fs') \<Rightarrow> (Some output_pdf_path, fs')
            | (False, fs') \<Rightarrow> (None, fs')))
      else (None, fs))"

text \<open>Leaving the \<^verbatim>\<open>with tempfile.TemporaryDirectory()\<close> block removes the directory and
  all that is in it.\<close>

definition is_under :: "path \<Rightarrow> path \<Rightarrow> bool" where
  "is_under temp_dir p = (take (length (join temp_dir [])) p = join temp_dir [])"

definition cleanup :: "path \<Rightarrow> filesystem \<Rightarrow> filesystem" where
  "cleanup temp_dir fs = (\<lambda>p. if is_under temp_dir p then None else fs p)"

text \<open>Lines 82-140, the batch path.\<close>

definition pil_strategy :: "env \<Rightarrow> path \<Rightarrow> string list \<Rightarrow> path \<Rightarrow> filesystem \<Rightarrow> path option \<times> filesystem" where
  "pil_strategy env image_dir image_files output_pdf_path fs =
     (case mkdtemp env of
        None \<Rightarrow> (None, fs)
      | Some temp_dir \<Rightarrow>
          let s = run_batches env image_dir temp_dir image_files fs;
              (result, fs') = finish_batches env (temp_pdfs s) output_pdf_path (st_files s)
          in (result, cleanup temp_dir fs'))"

text \<open>Line 66.\<close>

definition use_img2pdf_strategy :: "env \<Rightarrow> path \<Rightarrow> string list \<Rightarrow> bool" where
  "use_img2pdf_strategy env image_dir image_files =
     (let (formats, contains_unsupported_for_img2pdf) = get_image_formats image_dir image_files
      in IMG2PDF_AVAILABLE env \<and> \<not> contains_unsupported_for_img2pdf)"

text \<open>\<^verbatim>\<open>images_to_pdf\<close> (lines 31-149). The result \<open>None\<close> is Python's \<^verbatim>\<open>None\<close>; every
  exception that reaches line 142 gives it.\<close>

definition images_to_pdf :: "env \<Rightarrow> path \<Rightarrow> path \<Rightarrow> filesystem \<Rightarrow> path option \<times> filesystem" where
  "images_to_pdf env image_dir output_pdf_path fs =
     (case scandir env image_dir of
        NoSuchDirectory \<Rightarrow> (None, fs)
      | ScanError \<Rightarrow> (None, fs)
      | Entries entries \<Rightarrow>
          let image_files = sort_image_files env (list_images entries)
          in if image_files = [] then (None, fs)
             else if \<not> makedirs_ok env output_pdf_path then (None, fs)
             else if use_img2pdf_strategy env image_dir image_files then
               (case fast_path env image_dir image_files output_pdf_path fs of
                  (True, fs') \<Rightarrow> (Some output_pdf_path, fs')
                | (False, fs') \<Rightarrow> pil_strategy env image_dir image_files output_pdf_path fs')
             else pil_strategy env image_dir image_files output_pdf_path fs)"

section \<open>The album driver\<close>

text \<open>Lines 211-224: the loop over the chapters. A chapter's path joins the list when
  the conversion returned a path that is not empty and the file is there with a positive
  size.\<close>

fun convert_chapters ::
  "env \<Rightarrow> path \<Rightarrow> string list \<Rightarrow> path list \<Rightarrow> filesystem \<Rightarrow> path list \<times> filesystem"
where
  "convert_chapters env album_dir [] pdf_paths fs = (pdf_paths, fs)"
| "convert_chapters env album_dir (chapter # rest) pdf_paths fs =
     (let chapter_dir = join album_dir chapter;
          pdf_path = join album_dir (chapter @ ''.pdf'');
          (result, fs') = images_to_pdf env chapter_dir pdf_path fs
      in if (case result of None \<Rightarrow> False | Some r \<Rightarrow> r \<noteq> []) \<and>
            exists_path fs' pdf_path \<and> size_positive fs' pdf_path
         then convert_chapters env album_dir rest (pdf_paths @ [pdf_path]) fs'
         else convert_chapters env album_dir rest pdf_paths fs')"

text \<open>\<^verbatim>\<open>batch_chapter_to_pdfs\<close> (lines 180-229). An exception of the listing is caught at
  line 226, and the list is returned as it is then: empty.\<close>

definition list_chapters :: "(string \<times> kind) list \<Rightarrow> string list" where
  "list_chapters entries = map fst (filter (\<lambda>(name, k). k = SubDirectory) entries)"

definition batch_chapter_to_pdfs :: "env \<Rightarrow> path \<Rightarrow> filesystem \<Rightarrow> path list \<times> filesystem" where
  "batch_chapter_to_pdfs env album_dir fs =
     (case scandir env album_dir of
        Entries entries \<Rightarrow>
          convert_chapters env album_dir (sort_chapters env (list_chapters entries)) [] fs
      | _ \<Rightarrow> ([], fs))"

section \<open>The archive packager\<close>

text \<open>Lines 250-254: every path that exists with a positive size is written to the
  archive under its base name; every other path is skipped.\<close>

fun zip_entries :: "filesystem \<Rightarrow> path list \<Rightarrow> (string \<times> content) list" where
  "zip_entries fs [] = []"
| "zip_entries fs (pdf # rest) =
     (if exists_path fs pdf \<and> size_positive fs pdf
      then (basename pdf, the (fs pdf)) # zip_entries fs rest
      else zip_entries fs rest)"

text \<open>
  \<^verbatim>\<open>zip_pdfs\<close> (lines 232-260). Opening the archive for writing creates the file, empty
  until the archive is closed, so the loop sees it so. The result \<open>None\<close> is Python's
  \<^verbatim>\<open>None\<close>: the list was empty, or an exception was caught.
\<close>

definition zip_pdfs :: "env \<Rightarrow> path list \<Rightarrow> path \<Rightarrow> filesystem \<Rightarrow> path option \<times> filesystem" where
  "zip_pdfs env pdf_paths zip_path fs =
     (if pdf_paths = [] then (None, fs)
      else if \<not> makedirs_ok env zip_path then (None, fs)
      else if \<not> writable env zip_path then (None, fs)
      else
        let opened = fs(zip_path \<mapsto> Data 0)
        in (Some zip_path, opened(zip_path \<mapsto> Zip (zip_entries opened pdf_paths))))"

section \<open>Reading the results\<close>

text \<open>The pages of the PDF document at a path; none where no PDF document is.\<close>

definition pdf_pages :: "filesystem \<Rightarrow> path \<Rightarrow> path list" where
  "pdf_pages fs p = (case fs p of Some (Pdf pages) \<Rightarrow> pages | _ \<Rightarrow> [])"

text \<open>A path the merger and the packager take: it exists and its size is positive
  (lines 161 and 251).\<close>

definition valid_pdf_path :: "filesystem \<Rightarrow> path \<Rightarrow> bool" where
  "valid_pdf_path fs p = (exists_path fs p \<and> size_positive fs p)"

text \<open>Whether lines 100-103 succeed for a file of the directory: \<^verbatim>\<open>Image.open\<close> returns
  an image, and it is RGB or \<^verbatim>\<open>convert('RGB')\<close> succeeds on it. A file for which they do
  not is skipped at line 104.\<close>

definition opens :: "env \<Rightarrow> path \<Rightarrow> string \<Rightarrow> bool" where
  "opens env image_dir filename =
     (case Image_mode env (join image_dir filename) of
        None \<Rightarrow> False
      | Some m \<Rightarrow> m = ''RGB'' \<or> convert_ok env (join image_dir filename))"

text \<open>The pages that a file which opens contributes to the PDF of its batch: one for
  each frame when the image is RGB and is saved as it was opened, one when it was
  converted.\<close>

definition kept_pages :: "env \<Rightarrow> path \<Rightarrow> string \<Rightarrow> path list" where
  "kept_pages env image_dir filename =
     replicate
       (if Image_mode env (join image_dir filename) = Some ''RGB''
        then Suc (extra_frames env (join image_dir filename)) else 1)
       (join image_dir filename)"

text \<open>Whether the image of a file which opens is decoded, or decodes, when its batch is
  saved: a converted image is decoded already, an RGB image is decoded by \<^verbatim>\<open>save\<close>.\<close>

definition decodes_at_save :: "env \<Rightarrow> path \<Rightarrow> string \<Rightarrow> bool" where
  "decodes_at_save env image_dir filename =
     (if Image_mode env (join image_dir filename) = Some ''RGB''
      then decode_ok env (join image_dir filename) else True)"

text \<open>The files of a batch that open, and the pages they contribute, in order.\<close>

definition batch_opened :: "env \<Rightarrow> path \<Rightarrow> string list \<Rightarrow> nat \<Rightarrow> string list" where
  "batch_opened env image_dir image_files batch_index =
     filter (opens env image_dir) (batch_files_pil image_files batch_index)"

definition batch_pages :: "env \<Rightarrow> path \<Rightarrow> string list \<Rightarrow> nat \<Rightarrow> path list" where
  "batch_pages env image_dir image_files batch_index =
     concat (map (kept_pages env image_dir) (batch_opened env image_dir image_files batch_index))"

text \<open>Whether the batch with index \<open>batch_index\<close> leaves a partial PDF: some file of it
  opens, every image decodes, PIL encodes the images, and the temporary file can be
  written.\<close>

definition batch_saved :: "env \<Rightarrow> path \<Rightarrow> path \<Rightarrow> string list \<Rightarrow> nat \<Rightarrow> bool" where
  "batch_saved env image_dir temp_dir image_files batch_index =
     (batch_opened env image_dir image_files batch_index \<noteq> [] \<and>
      list_all (decodes_at_save env image_dir)
        (batch_opened env image_dir image_files batch_index) \<and>
      save_ok env (map (join image_dir) (batch_opened env image_dir image_files batch_index)) \<and>
      writable env (temp_pdf_path temp_dir batch_index))"

text \<open>The batches that leave a partial PDF, in order.\<close>

definition saved_batches :: "env \<Rightarrow> path \<Rightarrow> path \<Rightarrow> string list \<Rightarrow> nat list" where
  "saved_batches env image_dir temp_dir image_files =
     filter (batch_saved env image_dir temp_dir image_files)
       [0..<batch_count (length image_files)]"

text \<open>A state of the loop is settled when \<^verbatim>\<open>img\<close> refers to no object, or to one that
  \<^verbatim>\<open>batch_images_pil\<close> holds: then the list holds every image the converter refers to.\<close>

definition settled :: "pil_state \<Rightarrow> bool" where
  "settled s = (case img s of None \<Rightarrow> True | Some i \<Rightarrow> i \<in> set (batch_images_pil s))"

text \<open>A file needs no conversion when \<^verbatim>\<open>Image.open\<close> raises on it or returns an RGB
  image.\<close>

definition no_conversion :: "env \<Rightarrow> path \<Rightarrow> string \<Rightarrow> bool" where
  "no_conversion env image_dir filename =
     (case Image_mode env (join image_dir filename) of
        None \<Rightarrow> True
      | Some m \<Rightarrow> m = ''RGB'')"

section \<open>The album driver, as the specification words it\<close>

text \<open>The destination of a chapter (line 213).\<close>

definition chapter_pdf :: "path \<Rightarrow> string \<Rightarrow> path" where
  "chapter_pdf album_dir chapter = join album_dir (chapter @ ''.pdf'')"

text \<open>
  A chapter succeeds, in the file system it starts in, when its conversion does not
  return absent and its PDF is there afterwards and is not empty. \<open>after_chapter\<close> is the
  file system its conversion leaves. The successful chapters of a list are found by
  converting every chapter of the list in order, each in the file system its predecessor
  left, and keeping those that succeed.
\<close>

definition chapter_succeeds :: "env \<Rightarrow> path \<Rightarrow> filesystem \<Rightarrow> string \<Rightarrow> bool" where
  "chapter_succeeds env album_dir fs chapter =
     (fst (images_to_pdf env (join album_dir chapter) (chapter_pdf album_dir chapter) fs) \<noteq> None \<and>
      valid_pdf_path
        (snd (images_to_pdf env (join album_dir chapter) (chapter_pdf album_dir chapter) fs))
        (chapter_pdf album_dir chapter))"

definition after_chapter :: "env \<Rightarrow> path \<Rightarrow> string \<Rightarrow> filesystem \<Rightarrow> filesystem" where
  "after_chapter env album_dir chapter fs =
     snd (images_to_pdf env (join album_dir chapter) (chapter_pdf album_dir chapter) fs)"

fun successful_chapters :: "env \<Rightarrow> path \<Rightarrow> string list \<Rightarrow> filesystem \<Rightarrow> string list" where
  "successful_chapters env album_dir [] fs = []"
| "successful_chapters env album_dir (chapter # rest) fs =
     (if chapter_succeeds env album_dir fs chapter then [chapter] else []) @
     successful_chapters env album_dir rest (after_chapter env album_dir chapter fs)"

section \<open>An album to run the converter on\<close>

text \<open>
  An album with the chapters \<open>1\<close>, \<open>2\<close> and \<open>10\<close> and a cover image beside them. Chapter
  \<open>1\<close> holds twelve images, \<^verbatim>\<open>.jpg\<close> and \<^verbatim>\<open>.png\<close> in turn, of which \<^verbatim>\<open>3.jpg\<close> is corrupt;
  chapter \<open>2\<close> holds one image, which is corrupt; chapter \<open>10\<close> holds a \<^verbatim>\<open>.webp\<close> image, a
  \<^verbatim>\<open>.JPG\<close> image, a text file and a directory without images. Both optional libraries are
  installed, \<^verbatim>\<open>img2pdf.convert\<close> raises on every input, every image has a single frame,
  and everything else succeeds. No name has a character outside ASCII.
\<close>

definition example_env :: env where
  "example_env =
     \<lparr>IMG2PDF_AVAILABLE = True,
      PyPDF2_available = True,
      int_other = (\<lambda>s. None),
      scandir = (\<lambda>d.
        if d = ''/album'' then
          Entries [(''10'', SubDirectory), (''cover.jpg'', RegularFile),
                   (''2'', SubDirectory), (''1'', SubDirectory)]
        else if d = ''/album/1'' then
          Entries (map (\<lambda>n. (str_nat n @ (if even n then ''.png'' else ''.jpg''), RegularFile))
                     (rev [1..<13]))
        else if d = ''/album/10'' then
          Entries [(''b.webp'', RegularFile), (''a.JPG'', RegularFile),
                   (''notes.txt'', RegularFile), (''extras'', SubDirectory)]
        else if d = ''/album/10/extras'' then
          Entries [(''readme.txt'', RegularFile), (''old.jpg'', SubDirectory)]
        else if d = ''/album/2'' then
          Entries [(''1.jpg'', RegularFile)]
        else NoSuchDirectory),
      makedirs_ok = (\<lambda>p. True),
      writable = (\<lambda>p. True),
      img2pdf_ok = (\<lambda>ps. False),
      Image_mode = (\<lambda>p.
        if p = ''/album/2/1.jpg'' \<or> p = ''/album/1/3.jpg'' then None
        else if p = ''/album/10/b.webp'' then Some ''RGBA''
        else Some ''RGB''),
      extra_frames = (\<lambda>p. 0),
      convert_ok = (\<lambda>p. True),
      decode_ok = (\<lambda>p. True),
      save_ok = (\<lambda>ps. True),
      close_ok = (\<lambda>p. True),
      mkdtemp = Some ''/tmp/tmpk3v9''\<rparr>"

definition chapter1_files :: "string list" where
  "chapter1_files =
     [''1.jpg'', ''2.png'', ''3.jpg'', ''4.png'', ''5.jpg'', ''6.png'',
      ''7.jpg'', ''8.png'', ''9.jpg'', ''10.png'', ''11.jpg'', ''12.png'']"

text \<open>A file system with a PDF document of two pages and an empty file.\<close>

definition partial_files :: filesystem where
  "partial_files = [''/t/a.pdf'' \<mapsto> Pdf [''/i/1.jpg'', ''/i/2.jpg''], ''/t/b.pdf'' \<mapsto> Data 0]"



definition truncated_env :: env where
  "truncated_env =
     example_env
       \<lparr>scandir := (\<lambda>d. Entries [(''1.jpg'', RegularFile), (''2.jpg'', RegularFile),
                                 (''3.jpg'', RegularFile)]),
        Image_mode := (\<lambda>p. Some ''RGB''),
        decode_ok := (\<lambda>p. p \<noteq> ''/cut/2.jpg'')\<rparr>"

section \<open>The order of the pages\<close>

lemma keys_of_None: "keys_of key xs = None \<longleftrightarrow> (\<exists>x\<in>set xs. key x = None)"
  by (induction xs) (auto split: option.splits)

lemma keys_of_Some: "keys_of key xs = Some ks \<Longrightarrow> ks = map (\<lambda>x. the (key x)) xs"
  by (induction xs arbitrary: ks) (auto split: option.splits)

lemma undecorate_insort:
  "\<forall>p\<in>set ps. fst p = f (snd p) \<Longrightarrow>
   map snd (insort_key fst (f x, x) ps) = insort_key f x (map snd ps)"
  by (induction ps) auto

lemma decorated_sort:
  "(\<forall>p\<in>set (sort_key fst (zip (map f xs) xs)). fst p = f (snd p)) \<and>
   map snd (sort_key fst (zip (map f xs) xs)) = sort_key f xs"
  by (induction xs) (simp_all add: undecorate_insort set_insort_key)

lemma list_sort_key_Some:
  assumes "\<forall>x\<in>set xs. key x \<noteq> None"
  shows "list_sort_key key xs = Some (sort_key (\<lambda>x. the (key x)) xs)"
proof -
  from assms have "keys_of key xs \<noteq> None"
    by (simp add: keys_of_None)
  then obtain ks where ks: "keys_of key xs = Some ks"
    by auto
  then have "ks = map (\<lambda>x. the (key x)) xs"
    by (rule keys_of_Some)
  with ks show ?thesis
    by (simp add: list_sort_key_def decorated_sort)
qed

lemma list_sort_key_None:
  "\<exists>x\<in>set xs. key x = None \<Longrightarrow> list_sort_key key xs = None"
  by (simp add: list_sort_key_def keys_of_None[THEN iffD2])

lemma splitext_root: "\<exists>n. fst (splitext p) = take n p"
proof (cases "fst (splitext p) = p")
  case True
  then have "fst (splitext p) = take (length p) p"
    by simp
  then show ?thesis ..
next
  case False
  then have "fst (splitext p) = take (nat (rfind p (CHR ''.''))) p"
    by (simp add: splitext_def Let_def split: if_splits)
  then show ?thesis ..
qed

lemma is_ascii_root: "is_ascii f \<Longrightarrow> is_ascii (fst (splitext f))"
proof -
  assume ascii: "is_ascii f"
  obtain n where "fst (splitext f) = take n f"
    using splitext_root by blast
  moreover have "set (take n f) \<subseteq> set f"
    by (rule set_take_subset)
  ultimately show ?thesis
    using ascii unfolding is_ascii_def list_all_iff by auto
qed

lemma length_root: "length (fst (splitext f)) \<le> length f"
proof -
  obtain n where "fst (splitext f) = take n f"
    using splitext_root by blast
  then show ?thesis
    by simp
qed

lemma image_key_ascii:
  "is_ascii f \<Longrightarrow> length f \<le> 640 \<Longrightarrow> image_key env f = py_int (fst (splitext f))"
  using is_ascii_root [of f] length_root [of f] by (simp add: image_key_def int_str_def)

text \<open>
  Claim C1. The list of image names is sorted as a whole, one way or the other. The key
  of a name is \<^verbatim>\<open>int\<close> of its base name, the extension stripped. When the key of every name
  is an integer, the list is the stable sort by that integer, so the numbers ascend. When
  \<^verbatim>\<open>int\<close> raises on the base name of a single file, the list is the lexicographic sort of
  the names. In both cases it is a permutation of the names listed. For a name of ASCII
  characters (at most 640 of them) the key is what \<open>py_int\<close> reads from the base name,
  whatever the environment.
\<close>

theorem sort_image_files_all_or_nothing:
  "((\<forall>f\<in>set fs. image_key env f \<noteq> None) \<longrightarrow>
      sort_image_files env fs = sort_key (\<lambda>f. the (image_key env f)) fs \<and>
      sorted (map (\<lambda>f. the (image_key env f)) (sort_image_files env fs))) \<and>
   ((\<exists>f\<in>set fs. image_key env f = None) \<longrightarrow>
      sort_image_files env fs = sort fs \<and> sorted (sort_image_files env fs)) \<and>
   mset (sort_image_files env fs) = mset fs \<and>
   (\<forall>f. is_ascii f \<and> length f \<le> 640 \<longrightarrow> image_key env f = py_int (fst (splitext f)))"
proof -
  have numeric: "sort_image_files env fs = sort_key (\<lambda>f. the (image_key env f)) fs"
    if "\<forall>f\<in>set fs. image_key env f \<noteq> None"
    using that by (simp add: sort_image_files_def list_sort_key_Some)
  have fallback: "sort_image_files env fs = sort fs" if "\<exists>f\<in>set fs. image_key env f = None"
    using that by (simp add: sort_image_files_def list_sort_key_None)
  have perm: "mset (sort_image_files env fs) = mset fs"
    using numeric fallback by (cases "\<forall>f\<in>set fs. image_key env f \<noteq> None") auto
  show ?thesis
    using numeric fallback perm image_key_ascii by auto
qed

text \<open>
  Four directories. The names \<^verbatim>\<open>10.jpg\<close>, \<^verbatim>\<open>2.jpg\<close>, \<^verbatim>\<open>1.png\<close> are sorted by number. A
  base name with a space at its end is a number as well. The name \<^verbatim>\<open>cover.jpg\<close> sends the
  whole list to the lexicographic order, and so does a base name that ends in the
  separator 0x1C, which \<^verbatim>\<open>int\<close> does not strip.
\<close>

theorem sort_image_files_witness:
  "sort_image_files example_env [''10.jpg'', ''2.jpg'', ''1.png'']
     = [''1.png'', ''2.jpg'', ''10.jpg''] \<and>
   sort_image_files example_env [''10.jpg'', ''2 .jpg''] = [''2 .jpg'', ''10.jpg''] \<and>
   sort_image_files example_env [''10.jpg'', ''2.jpg'', ''cover.jpg'']
     = [''10.jpg'', ''2.jpg'', ''cover.jpg''] \<and>
   sort_image_files example_env [''9.jpg'', ''10.jpg'', ''1'' @ [CHR 0x1C] @ ''.jpg'']
     = [''1'' @ [CHR 0x1C] @ ''.jpg'', ''10.jpg'', ''9.jpg'']"
proof -
  let ?separator = "''1'' @ [CHR 0x1C] @ ''.jpg''"
  have numeric: "\<forall>f\<in>set [''10.jpg'', ''2.jpg'', ''1.png'']. image_key example_env f \<noteq> None"
    by code_simp
  have spaced: "\<forall>f\<in>set [''10.jpg'', ''2 .jpg'']. image_key example_env f \<noteq> None"
    by code_simp
  have outlier: "\<exists>f\<in>set [''10.jpg'', ''2.jpg'', ''cover.jpg'']. image_key example_env f = None"
    by code_simp
  have unstripped: "\<exists>f\<in>set [''9.jpg'', ''10.jpg'', ?separator]. image_key example_env f = None"
    by code_simp
  from numeric
    sort_image_files_all_or_nothing [of "[''10.jpg'', ''2.jpg'', ''1.png'']" example_env]
  have "sort_image_files example_env [''10.jpg'', ''2.jpg'', ''1.png'']
          = sort_key (\<lambda>f. the (image_key example_env f)) [''10.jpg'', ''2.jpg'', ''1.png'']"
    by blast
  moreover
  from spaced sort_image_files_all_or_nothing [of "[''10.jpg'', ''2 .jpg'']" example_env]
  have "sort_image_files example_env [''10.jpg'', ''2 .jpg'']
          = sort_key (\<lambda>f. the (image_key example_env f)) [''10.jpg'', ''2 .jpg'']"
    by blast
  moreover
  from outlier
    sort_image_files_all_or_nothing [of "[''10.jpg'', ''2.jpg'', ''cover.jpg'']" example_env]
  have "sort_image_files example_env [''10.jpg'', ''2.jpg'', ''cover.jpg'']
          = sort [''10.jpg'', ''2.jpg'', ''cover.jpg'']"
    by blast
  moreover
  from unstripped
    sort_image_files_all_or_nothing [of "[''9.jpg'', ''10.jpg'', ?separator]" example_env]
  have "sort_image_files example_env [''9.jpg'', ''10.jpg'', ?separator]
          = sort [''9.jpg'', ''10.jpg'', ?separator]"
    by blast
  moreover
  have "sort_key (\<lambda>f. the (image_key example_env f)) [''10.jpg'', ''2.jpg'', ''1.png'']
          = [''1.png'', ''2.jpg'', ''10.jpg'']"
    by code_simp
  moreover
  have "sort_key (\<lambda>f. the (image_key example_env f)) [''10.jpg'', ''2 .jpg'']
          = [''2 .jpg'', ''10.jpg'']"
    by code_simp
  moreover
  have "sort [''10.jpg'', ''2.jpg'', ''cover.jpg''] = [''10.jpg'', ''2.jpg'', ''cover.jpg'']"
    by code_simp
  moreover
  have "sort [''9.jpg'', ''10.jpg'', ?separator] = [?separator, ''10.jpg'', ''9.jpg'']"
    by code_simp
  ultimately show ?thesis
    by simp
qed

section \<open>The arithmetic of the batches\<close>

lemma batch_files_pil_take_drop:
  "batch_files_pil fs i = take BATCH_SIZE (drop (i * BATCH_SIZE) fs)"
  by (cases "i * BATCH_SIZE \<le> length fs")
     (simp_all add: batch_files_pil_def py_slice_def Let_def min_def)

lemma concat_batches_take:
  "concat (map (batch_files_pil fs) [0..<k]) = take (k * BATCH_SIZE) fs"
proof (induction k)
  case 0
  show ?case by simp
next
  case (Suc k)
  have "take (k * BATCH_SIZE) fs @ take BATCH_SIZE (drop (k * BATCH_SIZE) fs)
          = take (k * BATCH_SIZE + BATCH_SIZE) fs"
    by (simp add: take_add)
  with Suc show ?case
    by (simp add: batch_files_pil_take_drop add.commute)
qed

lemma batch_count_bounds:
  "n \<le> batch_count n * BATCH_SIZE"
  "0 < n \<Longrightarrow> (batch_count n - 1) * BATCH_SIZE < n"
  unfolding batch_count_def BATCH_SIZE_def by presburger+

lemma batch_count_ceiling:
  "int (batch_count n) = \<lceil>real n / real BATCH_SIZE\<rceil>"
proof -
  have "real n / real BATCH_SIZE \<le> real (batch_count n)"
    using batch_count_bounds(1)[of n]
    by (simp add: BATCH_SIZE_def field_simps)
  moreover have "real (batch_count n) - 1 < real n / real BATCH_SIZE"
  proof (cases "n = 0")
    case True
    then show ?thesis
      by (simp add: batch_count_def BATCH_SIZE_def)
  next
    case False
    then have "(batch_count n - 1) * BATCH_SIZE < n"
      using batch_count_bounds(2) by simp
    moreover have positive: "0 < batch_count n"
      using False by (simp add: batch_count_def BATCH_SIZE_def)
    ultimately have "real (batch_count n - 1) * real BATCH_SIZE < real n"
      by (metis of_nat_less_iff of_nat_mult)
    moreover have "real (batch_count n - 1) = real (batch_count n) - 1"
      using positive by (simp add: of_nat_diff)
    ultimately show ?thesis
      by (simp add: BATCH_SIZE_def field_simps)
  qed
  ultimately show ?thesis
    by (intro ceiling_unique[symmetric]) simp_all
qed

section \<open>Choosing the strategy\<close>

lemma get_image_formats_fold:
  "snd (fold (\<lambda>filename (formats, unsupported_by_img2pdf).
             let ext = lower (snd (splitext filename))
             in (insert ext formats,
                 if ext \<notin> {''.jpg'', ''.jpeg'', ''.png''} then True
                 else unsupported_by_img2pdf)) fs (F, b))
   \<longleftrightarrow> b \<or> (\<exists>f\<in>set fs. lower (snd (splitext f)) \<notin> {''.jpg'', ''.jpeg'', ''.png''})"
  by (induction fs arbitrary: F b) (auto simp: Let_def)

lemma get_image_formats_unsupported:
  "snd (get_image_formats image_dir fs)
   \<longleftrightarrow> (\<exists>f\<in>set fs. lower (snd (splitext f)) \<notin> {''.jpg'', ''.jpeg'', ''.png''})"
  unfolding get_image_formats_def by (subst get_image_formats_fold) simp

lemma use_img2pdf_strategy_iff:
  "use_img2pdf_strategy env image_dir fs \<longleftrightarrow>
     IMG2PDF_AVAILABLE env \<and>
     (\<forall>f\<in>set fs. lower (snd (splitext f)) \<in> {''.jpg'', ''.jpeg'', ''.png''})"
  using get_image_formats_unsupported [of image_dir fs]
  by (auto simp: use_img2pdf_strategy_def split: prod.splits)

text \<open>
  Claim C3. Take a conversion that reaches the choice of the strategy: the directory is
  listed, it holds an image, and the parent of the destination can be made. The fast path
  is chosen exactly when \<^verbatim>\<open>img2pdf\<close> is installed and the lower-cased extension of every
  file is \<^verbatim>\<open>.jpg\<close>, \<^verbatim>\<open>.jpeg\<close> or \<^verbatim>\<open>.png\<close>; a \<^verbatim>\<open>.webp\<close> or \<^verbatim>\<open>.bmp\<close> file rules it out. When it is
  not chosen, the conversion is the batch path on the file system as it was. When it is
  chosen and the encoder succeeds, the destination holds the PDF of all images and the
  destination is returned. When it is chosen and the encoder raises, or the destination
  cannot be opened, the conversion is the batch path (on the file system the attempt
  left, with the destination created empty in the first case): it does not end in
  failure there.
\<close>

theorem fast_path_selection:
  assumes "scandir env image_dir = Entries entries"
    and "sort_image_files env (list_images entries) = image_files"
    and "image_files \<noteq> []"
    and "makedirs_ok env output_pdf_path"
  shows
    "(use_img2pdf_strategy env image_dir image_files \<longleftrightarrow>
        IMG2PDF_AVAILABLE env \<and>
        (\<forall>f\<in>set image_files. lower (snd (splitext f)) \<in> {''.jpg'', ''.jpeg'', ''.png''})) \<and>
     ((\<exists>f\<in>set image_files. lower (snd (splitext f)) \<in> {''.webp'', ''.bmp''}) \<longrightarrow>
        \<not> use_img2pdf_strategy env image_dir image_files) \<and>
     (\<not> use_img2pdf_strategy env image_dir image_files \<longrightarrow>
        images_to_pdf env image_dir output_pdf_path fs
          = pil_strategy env image_dir image_files output_pdf_path fs) \<and>
     (use_img2pdf_strategy env image_dir image_files \<and> writable env output_pdf_path \<and>
      img2pdf_ok env (map (join image_dir) image_files) \<longrightarrow>
        images_to_pdf env image_dir output_pdf_path fs
          = (Some output_pdf_path,
             fs(output_pdf_path \<mapsto> Pdf (map (join image_dir) image_files)))) \<and>
     (use_img2pdf_strategy env image_dir image_files \<and> writable env output_pdf_path \<and>
      \<not> img2pdf_ok env (map (join image_dir) image_files) \<longrightarrow>
        images_to_pdf env image_dir output_pdf_path fs
          = pil_strategy env image_dir image_files output_pdf_path
              (fs(output_pdf_path \<mapsto> Data 0))) \<and>
     (use_img2pdf_strategy env image_dir image_files \<and> \<not> writable env output_pdf_path \<longrightarrow>
        images_to_pdf env image_dir output_pdf_path fs
          = pil_strategy env image_dir image_files output_pdf_path fs)"
proof -
  have other: "\<not> use_img2pdf_strategy env image_dir image_files"
    if "\<exists>f\<in>set image_files. lower (snd (splitext f)) \<in> {''.webp'', ''.bmp''}"
  proof -
    from that obtain f where f: "f \<in> set image_files"
      and "lower (snd (splitext f)) \<in> {''.webp'', ''.bmp''}"
      by blast
    then have "lower (snd (splitext f)) \<notin> {''.jpg'', ''.jpeg'', ''.png''}"
      by auto
    with f show ?thesis
      unfolding use_img2pdf_strategy_iff by blast
  qed
  have run: "images_to_pdf env image_dir output_pdf_path fs =
      (if use_img2pdf_strategy env image_dir image_files then
         (case fast_path env image_dir image_files output_pdf_path fs of
            (True, fs') \<Rightarrow> (Some output_pdf_path, fs')
          | (False, fs') \<Rightarrow> pil_strategy env image_dir image_files output_pdf_path fs')
       else pil_strategy env image_dir image_files output_pdf_path fs)"
    using assms by (simp add: images_to_pdf_def Let_def)
  have c3: "\<not> use_img2pdf_strategy env image_dir image_files \<longrightarrow>
        images_to_pdf env image_dir output_pdf_path fs
          = pil_strategy env image_dir image_files output_pdf_path fs"
    by (simp add: run)
  have c4: "use_img2pdf_strategy env image_dir image_files \<and> writable env output_pdf_path \<and>
      img2pdf_ok env (map (join image_dir) image_files) \<longrightarrow>
        images_to_pdf env image_dir output_pdf_path fs
          = (Some output_pdf_path,
             fs(output_pdf_path \<mapsto> Pdf (map (join image_dir) image_files)))"
    by (simp add: run fast_path_def Let_def)
  have c5: "use_img2pdf_strategy env image_dir image_files \<and> writable env output_pdf_path \<and>
      \<not> img2pdf_ok env (map (join image_dir) image_files) \<longrightarrow>
        images_to_pdf env image_dir output_pdf_path fs
          = pil_strategy env image_dir image_files output_pdf_path
              (fs(output_pdf_path \<mapsto> Data 0))"
    by (simp add: run fast_path_def Let_def)
  have c6: "use_img2pdf_strategy env image_dir image_files \<and> \<not> writable env output_pdf_path \<longrightarrow>
        images_to_pdf env image_dir output_pdf_path fs
          = pil_strategy env image_dir image_files output_pdf_path fs"
    by (simp add: run fast_path_def Let_def)
  have c2: "(\<exists>f\<in>set image_files. lower (snd (splitext f)) \<in> {''.webp'', ''.bmp''}) \<longrightarrow>
        \<not> use_img2pdf_strategy env image_dir image_files"
    using other by blast
  show ?thesis
    by (intro conjI) (fact use_img2pdf_strategy_iff c2 c3 c4 c5 c6)+
qed

text \<open>In the album: chapter \<open>1\<close> takes the fast path, the encoder raises, and the batch
  path produces the PDF; chapter \<open>10\<close> holds a \<^verbatim>\<open>.webp\<close> file and goes to the batch path
  at once.\<close>

theorem fast_path_selection_witness:
  "use_img2pdf_strategy example_env ''/album/1'' chapter1_files \<and>
   images_to_pdf example_env ''/album/1'' ''/album/1.pdf'' Map.empty
     = pil_strategy example_env ''/album/1'' chapter1_files ''/album/1.pdf''
         [''/album/1.pdf'' \<mapsto> Data 0] \<and>
   fst (images_to_pdf example_env ''/album/1'' ''/album/1.pdf'' Map.empty) = Some ''/album/1.pdf'' \<and>
   \<not> use_img2pdf_strategy example_env ''/album/10'' [''a.JPG'', ''b.webp''] \<and>
   images_to_pdf example_env ''/album/10'' ''/album/10.pdf'' Map.empty
     = pil_strategy example_env ''/album/10'' [''a.JPG'', ''b.webp''] ''/album/10.pdf'' Map.empty"
proof -
  have listing1: "scandir example_env ''/album/1''
      = Entries (map (\<lambda>n. (str_nat n @ (if even n then ''.png'' else ''.jpg''), RegularFile))
                   (rev [1..<13]))"
    by (simp add: example_env_def)
  have sorted1: "sort_image_files example_env (list_images
        (map (\<lambda>n. (str_nat n @ (if even n then ''.png'' else ''.jpg''), RegularFile))
           (rev [1..<13]))) = chapter1_files"
    by code_simp
  have nonempty1: "chapter1_files \<noteq> []"
    by (simp add: chapter1_files_def)
  have dirs: "makedirs_ok example_env p" for p
    by (simp add: example_env_def)
  note first = fast_path_selection [OF listing1 sorted1 nonempty1 dirs,
      of "''/album/1.pdf''" Map.empty]
  have supported: "IMG2PDF_AVAILABLE example_env \<and>
      (\<forall>f\<in>set chapter1_files. lower (snd (splitext f)) \<in> {''.jpg'', ''.jpeg'', ''.png''})"
    by code_simp
  with first have use1: "use_img2pdf_strategy example_env ''/album/1'' chapter1_files"
    by blast
  have raises: "writable example_env ''/album/1.pdf'' \<and>
      \<not> img2pdf_ok example_env (map (join ''/album/1'') chapter1_files)"
    by (simp add: example_env_def)
  with first use1 have falls: "images_to_pdf example_env ''/album/1'' ''/album/1.pdf'' Map.empty
     = pil_strategy example_env ''/album/1'' chapter1_files ''/album/1.pdf''
         [''/album/1.pdf'' \<mapsto> Data 0]"
    by blast
  have "fst (pil_strategy example_env ''/album/1'' chapter1_files ''/album/1.pdf''
         [''/album/1.pdf'' \<mapsto> Data 0]) = Some ''/album/1.pdf''"
    by code_simp
  with falls have succeeds:
    "fst (images_to_pdf example_env ''/album/1'' ''/album/1.pdf'' Map.empty) = Some ''/album/1.pdf''"
    by simp
  have listing2: "scandir example_env ''/album/10''
      = Entries [(''b.webp'', RegularFile), (''a.JPG'', RegularFile),
                 (''notes.txt'', RegularFile), (''extras'', SubDirectory)]"
    by (simp add: example_env_def)
  have sorted2: "sort_image_files example_env (list_images
        [(''b.webp'', RegularFile), (''a.JPG'', RegularFile),
         (''notes.txt'', RegularFile), (''extras'', SubDirectory)]) = [''a.JPG'', ''b.webp'']"
    by code_simp
  note second = fast_path_selection [OF listing2 sorted2 _ dirs, of "''/album/10.pdf''" Map.empty]
  have webp: "\<exists>f\<in>set [''a.JPG'', ''b.webp'']. lower (snd (splitext f)) \<in> {''.webp'', ''.bmp''}"
    by code_simp
  with second have no_use: "\<not> use_img2pdf_strategy example_env ''/album/10'' [''a.JPG'', ''b.webp'']"
    by blast
  with second have "images_to_pdf example_env ''/album/10'' ''/album/10.pdf'' Map.empty
     = pil_strategy example_env ''/album/10'' [''a.JPG'', ''b.webp''] ''/album/10.pdf'' Map.empty"
    by blast
  with use1 falls succeeds no_use show ?thesis
    by blast
qed

section \<open>Directories without images\<close>

lemma sort_image_files_Nil_iff: "sort_image_files env fs = [] \<longleftrightarrow> fs = []"
proof -
  have "mset (sort_image_files env fs) = mset fs"
    by (cases "\<forall>f\<in>set fs. image_key env f \<noteq> None")
       (simp_all add: sort_image_files_def list_sort_key_Some list_sort_key_None)
  then show ?thesis
    by (metis mset_zero_iff)
qed

lemma list_images_Nil_iff:
  "list_images entries = [] \<longleftrightarrow>
     (\<forall>(name, k)\<in>set entries. k = RegularFile \<longrightarrow>
        lower (snd (splitext name)) \<notin> allowed_extensions)"
  by (auto simp: list_images_def filter_empty_conv)

text \<open>
  Claim C8. When the directory does not exist, or no regular file in it has an extension
  that is, lower-cased, \<^verbatim>\<open>.jpg\<close>, \<^verbatim>\<open>.jpeg\<close>, \<^verbatim>\<open>.png\<close>, \<^verbatim>\<open>.webp\<close> or \<^verbatim>\<open>.bmp\<close>, the conversion returns
  \<^verbatim>\<open>None\<close> and leaves the file system as it was: nothing is created at the destination,
  nor anywhere else.
\<close>

theorem no_images_no_output:
  assumes "scandir env image_dir = NoSuchDirectory \<or>
     (\<exists>entries. scandir env image_dir = Entries entries \<and>
        (\<forall>(name, k)\<in>set entries. k = RegularFile \<longrightarrow>
           lower (snd (splitext name)) \<notin> {''.jpg'', ''.jpeg'', ''.png'', ''.webp'', ''.bmp''}))"
  shows "images_to_pdf env image_dir output_pdf_path fs = (None, fs)"
  using assms
proof
  assume "scandir env image_dir = NoSuchDirectory"
  then show ?thesis
    by (simp add: images_to_pdf_def)
next
  assume "\<exists>entries. scandir env image_dir = Entries entries \<and>
        (\<forall>(name, k)\<in>set entries. k = RegularFile \<longrightarrow>
           lower (snd (splitext name)) \<notin> {''.jpg'', ''.jpeg'', ''.png'', ''.webp'', ''.bmp''})"
  then obtain entries where listing: "scandir env image_dir = Entries entries"
    and "\<forall>(name, k)\<in>set entries. k = RegularFile \<longrightarrow>
           lower (snd (splitext name)) \<notin> allowed_extensions"
    unfolding allowed_extensions_def by blast
  then have "sort_image_files env (list_images entries) = []"
    by (simp add: sort_image_files_Nil_iff list_images_Nil_iff)
  with listing show ?thesis
    by (simp add: images_to_pdf_def)
qed

text \<open>In the album: a directory that does not exist, and the directory \<^verbatim>\<open>extras\<close>, which
  holds a text file and a sub-directory named \<^verbatim>\<open>old.jpg\<close>.\<close>

theorem no_images_no_output_witness:
  "images_to_pdf example_env ''/nowhere'' ''/out/n.pdf'' partial_files = (None, partial_files) \<and>
   images_to_pdf example_env ''/album/10/extras'' ''/out/e.pdf'' partial_files
     = (None, partial_files)"
proof -
  have missing: "scandir example_env ''/nowhere'' = NoSuchDirectory"
    by (simp add: example_env_def)
  have listing: "scandir example_env ''/album/10/extras''
      = Entries [(''readme.txt'', RegularFile), (''old.jpg'', SubDirectory)]"
    by (simp add: example_env_def)
  have "\<forall>(name, k)\<in>set [(''readme.txt'', RegularFile), (''old.jpg'', SubDirectory)].
          k = RegularFile \<longrightarrow>
          lower (snd (splitext name)) \<notin> {''.jpg'', ''.jpeg'', ''.png'', ''.webp'', ''.bmp''}"
    by code_simp
  with listing have no_image: "scandir example_env ''/album/10/extras'' = NoSuchDirectory \<or>
     (\<exists>entries. scandir example_env ''/album/10/extras'' = Entries entries \<and>
        (\<forall>(name, k)\<in>set entries. k = RegularFile \<longrightarrow>
           lower (snd (splitext name)) \<notin> {''.jpg'', ''.jpeg'', ''.png'', ''.webp'', ''.bmp''}))"
    by blast
  from missing have "images_to_pdf example_env ''/nowhere'' ''/out/n.pdf'' partial_files
      = (None, partial_files)"
    by (intro no_images_no_output) simp
  moreover from no_image
  have "images_to_pdf example_env ''/album/10/extras'' ''/out/e.pdf'' partial_files
      = (None, partial_files)"
    by (rule no_images_no_output)
  ultimately show ?thesis
    by simp
qed

section \<open>The merger's validity filter\<close>

lemma append_valid_inputs:
  "append_valid fs ps inputs = Some result \<Longrightarrow>
     map fst result = map fst inputs @ filter (valid_pdf_path fs) ps \<and>
     map snd result = map snd inputs @ map (pdf_pages fs) (filter (valid_pdf_path fs) ps)"
  by (induction fs ps inputs arbitrary: result rule: append_valid.induct)
     (auto simp: valid_pdf_path_def pdf_pages_def split: if_splits option.splits content.splits)

lemma append_valid_none_valid:
  "\<forall>p\<in>set ps. \<not> valid_pdf_path fs p \<Longrightarrow> append_valid fs ps inputs = Some inputs"
  by (induction fs ps inputs rule: append_valid.induct) (auto simp: valid_pdf_path_def)

lemma merge_pdfs_success:
  assumes "fst (merge_pdfs env pdf_paths output_path fs)"
  shows "snd (merge_pdfs env pdf_paths output_path fs)
      = fs(output_path \<mapsto> Pdf (concat (map (pdf_pages fs) (filter (valid_pdf_path fs) pdf_paths))))"
proof -
  from assms obtain inputs where inputs: "append_valid fs pdf_paths [] = Some inputs"
    by (cases "append_valid fs pdf_paths []") (auto simp: merge_pdfs_def split: if_splits)
  from append_valid_inputs [OF this]
  have "map snd inputs = map (pdf_pages fs) (filter (valid_pdf_path fs) pdf_paths)"
    by simp
  with assms inputs show ?thesis
    by (auto simp: merge_pdfs_def split: if_splits)
qed

text \<open>
  Claim C7. The inputs of the merger are exactly the paths of the list that exist with a
  positive size, in the order of the list. When no path of the list is such, the merger
  returns \<open>False\<close> and the file system is as it was: no output is written. When the merger
  returns \<open>True\<close>, the destination holds the pages of those inputs, in order. A list of
  one PDF document and one file of zero bytes, in either order, is merged with success
  into the pages of the document alone (PyPDF2 being installed and the destination
  writable).
\<close>

theorem merge_pdfs_validity_filter:
  "(\<forall>inputs. append_valid fs pdf_paths [] = Some inputs \<longrightarrow>
      map fst inputs = filter (valid_pdf_path fs) pdf_paths) \<and>
   ((\<forall>p\<in>set pdf_paths. \<not> valid_pdf_path fs p) \<longrightarrow>
      merge_pdfs env pdf_paths output_path fs = (False, fs)) \<and>
   (fst (merge_pdfs env pdf_paths output_path fs) \<longrightarrow>
      snd (merge_pdfs env pdf_paths output_path fs)
        = fs(output_path \<mapsto>
               Pdf (concat (map (pdf_pages fs) (filter (valid_pdf_path fs) pdf_paths))))) \<and>
   (PyPDF2_available env \<and> writable env output_path \<and>
    fs valid = Some (Pdf pages) \<and> fs zero_byte = Some (Data 0) \<longrightarrow>
      merge_pdfs env [valid, zero_byte] output_path fs = (True, fs(output_path \<mapsto> Pdf pages)) \<and>
      merge_pdfs env [zero_byte, valid] output_path fs = (True, fs(output_path \<mapsto> Pdf pages)))"
proof (intro conjI allI impI)
  fix inputs
  assume "append_valid fs pdf_paths [] = Some inputs"
  from append_valid_inputs [OF this]
  show "map fst inputs = filter (valid_pdf_path fs) pdf_paths"
    by simp
next
  assume "\<forall>p\<in>set pdf_paths. \<not> valid_pdf_path fs p"
  then have "append_valid fs pdf_paths [] = Some []"
    by (rule append_valid_none_valid)
  then show "merge_pdfs env pdf_paths output_path fs = (False, fs)"
    by (simp add: merge_pdfs_def)
next
  assume "fst (merge_pdfs env pdf_paths output_path fs)"
  then show "snd (merge_pdfs env pdf_paths output_path fs)
        = fs(output_path \<mapsto>
               Pdf (concat (map (pdf_pages fs) (filter (valid_pdf_path fs) pdf_paths))))"
    by (rule merge_pdfs_success)
next
  assume a: "PyPDF2_available env \<and> writable env output_path \<and>
    fs valid = Some (Pdf pages) \<and> fs zero_byte = Some (Data 0)"
  then show "merge_pdfs env [valid, zero_byte] output_path fs
      = (True, fs(output_path \<mapsto> Pdf pages))"
    by (simp add: merge_pdfs_def exists_path_def size_positive_def)
  from a show "merge_pdfs env [zero_byte, valid] output_path fs
      = (True, fs(output_path \<mapsto> Pdf pages))"
    by (simp add: merge_pdfs_def exists_path_def size_positive_def)
qed

theorem merge_pdfs_validity_filter_witness:
  "merge_pdfs example_env [''/t/a.pdf'', ''/t/b.pdf''] ''/out/m.pdf'' partial_files
     = (True, partial_files(''/out/m.pdf'' \<mapsto> Pdf [''/i/1.jpg'', ''/i/2.jpg''])) \<and>
   merge_pdfs example_env [''/t/b.pdf'', ''/t/c.pdf''] ''/out/m.pdf'' partial_files
     = (False, partial_files) \<and>
   append_valid partial_files [''/t/b.pdf'', ''/t/a.pdf'', ''/t/c.pdf''] []
     = Some [(''/t/a.pdf'', [''/i/1.jpg'', ''/i/2.jpg''])]"
proof -
  have works: "PyPDF2_available example_env \<and> writable example_env ''/out/m.pdf'' \<and>
      partial_files ''/t/a.pdf'' = Some (Pdf [''/i/1.jpg'', ''/i/2.jpg'']) \<and>
      partial_files ''/t/b.pdf'' = Some (Data 0)"
    by (simp add: example_env_def partial_files_def)
  with merge_pdfs_validity_filter
    [of partial_files "[]" example_env "''/out/m.pdf''" "''/t/a.pdf''"
        "[''/i/1.jpg'', ''/i/2.jpg'']" "''/t/b.pdf''"]
  have merged: "merge_pdfs example_env [''/t/a.pdf'', ''/t/b.pdf''] ''/out/m.pdf'' partial_files
     = (True, partial_files(''/out/m.pdf'' \<mapsto> Pdf [''/i/1.jpg'', ''/i/2.jpg'']))"
    by blast
  have invalid: "\<forall>p\<in>set [''/t/b.pdf'', ''/t/c.pdf'']. \<not> valid_pdf_path partial_files p"
    by (simp add: valid_pdf_path_def exists_path_def size_positive_def partial_files_def)
  with merge_pdfs_validity_filter
    [of partial_files "[''/t/b.pdf'', ''/t/c.pdf'']" example_env "''/out/m.pdf''"]
  have refused: "merge_pdfs example_env [''/t/b.pdf'', ''/t/c.pdf''] ''/out/m.pdf'' partial_files
     = (False, partial_files)"
    by blast
  have appended: "append_valid partial_files [''/t/b.pdf'', ''/t/a.pdf'', ''/t/c.pdf''] []
     = Some [(''/t/a.pdf'', [''/i/1.jpg'', ''/i/2.jpg''])]"
    by (simp add: exists_path_def size_positive_def partial_files_def)
  from merged refused appended show ?thesis
    by blast
qed

section \<open>An archive of invalid paths\<close>

lemma zip_entries_none_valid:
  "\<forall>p\<in>set ps. \<not> valid_pdf_path fs p \<Longrightarrow> zip_entries fs ps = []"
  by (induction ps) (auto simp: valid_pdf_path_def)

text \<open>
  Claim C10. Given a list that is not empty and whose paths each do not exist or name a
  file of zero bytes, the packager (when the parent of the destination can be made and
  the archive can be opened for writing) writes an archive without entries at the
  destination and returns the destination; for the empty list it returns \<^verbatim>\<open>None\<close> and
  writes nothing.
\<close>

theorem zip_pdfs_all_invalid:
  assumes "pdf_paths \<noteq> []"
    and "\<forall>p\<in>set pdf_paths. fs p = None \<or> fs p = Some (Data 0)"
    and "makedirs_ok env zip_path" and "writable env zip_path"
  shows "zip_pdfs env pdf_paths zip_path fs = (Some zip_path, fs(zip_path \<mapsto> Zip [])) \<and>
         zip_pdfs env [] zip_path fs = (None, fs)"
proof -
  let ?opened = "fs(zip_path \<mapsto> Data 0)"
  have "\<not> valid_pdf_path ?opened p" if "p \<in> set pdf_paths" for p
  proof -
    from assms(2) that have "fs p = None \<or> fs p = Some (Data 0)"
      by blast
    then show ?thesis
      by (auto simp: valid_pdf_path_def exists_path_def size_positive_def)
  qed
  then have "\<forall>p\<in>set pdf_paths. \<not> valid_pdf_path ?opened p"
    by blast
  then have "zip_entries ?opened pdf_paths = []"
    by (rule zip_entries_none_valid)
  with assms show ?thesis
    by (simp add: zip_pdfs_def)
qed

theorem zip_pdfs_all_invalid_witness:
  "zip_pdfs example_env [''/t/b.pdf'', ''/t/c.pdf''] ''/out/album.zip'' partial_files
     = (Some ''/out/album.zip'', partial_files(''/out/album.zip'' \<mapsto> Zip []))"
proof -
  have invalid: "\<forall>p\<in>set [''/t/b.pdf'', ''/t/c.pdf''].
      partial_files p = None \<or> partial_files p = Some (Data 0)"
    by (simp add: partial_files_def)
  have "makedirs_ok example_env ''/out/album.zip''" and "writable example_env ''/out/album.zip''"
    by (simp_all add: example_env_def)
  with invalid zip_pdfs_all_invalid
    [of "[''/t/b.pdf'', ''/t/c.pdf'']" partial_files example_env "''/out/album.zip''"]
  show ?thesis
    by simp
qed

section \<open>The end of the batch path\<close>

text \<open>
  Claim C5. Let the temporary directory be made and let \<open>s\<close> be the state after the loop
  over the batches. With no partial PDF the conversion returns \<^verbatim>\<open>None\<close>. With exactly one,
  the conversion is a copy of it to the destination: it returns the destination when the
  copy succeeds, whether PyPDF2 is installed or not, and the merger plays no part. With
  more than one, the result is the merger's: the destination when it returns \<open>True\<close>,
  \<^verbatim>\<open>None\<close> when it returns \<open>False\<close>. The temporary directory is removed in every case.
\<close>

theorem batch_path_outcome:
  assumes "mkdtemp env = Some temp_dir"
    and "run_batches env image_dir temp_dir image_files fs = s"
  shows
    "(temp_pdfs s = [] \<longrightarrow>
        pil_strategy env image_dir image_files output_pdf_path fs
          = (None, cleanup temp_dir (st_files s))) \<and>
     (\<forall>partial. temp_pdfs s = [partial] \<longrightarrow>
        pil_strategy env image_dir image_files output_pdf_path fs
          = (case st_files s partial of
               Some c \<Rightarrow>
                 if writable env output_pdf_path
                 then (Some output_pdf_path, cleanup temp_dir ((st_files s)(output_pdf_path \<mapsto> c)))
                 else (None, cleanup temp_dir (st_files s))
             | None \<Rightarrow> (None, cleanup temp_dir (st_files s)))) \<and>
     (1 < length (temp_pdfs s) \<longrightarrow>
        pil_strategy env image_dir image_files output_pdf_path fs
          = (if fst (merge_pdfs env (temp_pdfs s) output_pdf_path (st_files s))
             then Some output_pdf_path else None,
             cleanup temp_dir (snd (merge_pdfs env (temp_pdfs s) output_pdf_path (st_files s)))))"
proof (intro conjI allI impI)
  assume "temp_pdfs s = []"
  with assms show "pil_strategy env image_dir image_files output_pdf_path fs
          = (None, cleanup temp_dir (st_files s))"
    by (simp add: pil_strategy_def finish_batches_def)
next
  fix partial
  assume "temp_pdfs s = [partial]"
  with assms show "pil_strategy env image_dir image_files output_pdf_path fs
          = (case st_files s partial of
               Some c \<Rightarrow>
                 if writable env output_pdf_path
                 then (Some output_pdf_path, cleanup temp_dir ((st_files s)(output_pdf_path \<mapsto> c)))
                 else (None, cleanup temp_dir (st_files s))
             | None \<Rightarrow> (None, cleanup temp_dir (st_files s)))"
    by (simp add: pil_strategy_def finish_batches_def copy2_def split: option.splits)
next
  assume "1 < length (temp_pdfs s)"
  with assms show "pil_strategy env image_dir image_files output_pdf_path fs
          = (if fst (merge_pdfs env (temp_pdfs s) output_pdf_path (st_files s))
             then Some output_pdf_path else None,
             cleanup temp_dir (snd (merge_pdfs env (temp_pdfs s) output_pdf_path (st_files s))))"
    by (cases "merge_pdfs env (temp_pdfs s) output_pdf_path (st_files s)")
       (auto simp: pil_strategy_def finish_batches_def)
qed

text \<open>In the album: chapter \<open>2\<close> yields no partial PDF; chapter \<open>10\<close> yields one, which is
  copied also when PyPDF2 is missing; chapter \<open>1\<close> yields two, and the conversion fails
  without PyPDF2 and succeeds with it.\<close>

theorem batch_path_outcome_witness:
  "fst (pil_strategy example_env ''/album/2'' [''1.jpg''] ''/album/2.pdf'' Map.empty) = None \<and>
   fst (pil_strategy (example_env\<lparr>PyPDF2_available := False\<rparr>) ''/album/10''
          [''a.JPG'', ''b.webp''] ''/album/10.pdf'' Map.empty) = Some ''/album/10.pdf'' \<and>
   fst (pil_strategy (example_env\<lparr>PyPDF2_available := False\<rparr>) ''/album/1''
          chapter1_files ''/album/1.pdf'' Map.empty) = None \<and>
   fst (pil_strategy example_env ''/album/1'' chapter1_files ''/album/1.pdf'' Map.empty)
     = Some ''/album/1.pdf''"
proof -
  let ?off = "example_env\<lparr>PyPDF2_available := False\<rparr>"
  have tmp: "mkdtemp example_env = Some ''/tmp/tmpk3v9''" "mkdtemp ?off = Some ''/tmp/tmpk3v9''"
    by (simp_all add: example_env_def)
  have none: "temp_pdfs (run_batches example_env ''/album/2'' ''/tmp/tmpk3v9'' [''1.jpg'']
      Map.empty) = []"
    by code_simp
  with batch_path_outcome [OF tmp(1) refl, of "''/album/2''" "[''1.jpg'']" Map.empty
      "''/album/2.pdf''"]
  have first: "fst (pil_strategy example_env ''/album/2'' [''1.jpg''] ''/album/2.pdf''
      Map.empty) = None"
    by simp
  have one: "temp_pdfs (run_batches ?off ''/album/10'' ''/tmp/tmpk3v9'' [''a.JPG'', ''b.webp'']
      Map.empty) = [''/tmp/tmpk3v9/temp_batch_1.pdf'']"
    by code_simp
  have saved: "st_files (run_batches ?off ''/album/10'' ''/tmp/tmpk3v9'' [''a.JPG'', ''b.webp'']
      Map.empty) ''/tmp/tmpk3v9/temp_batch_1.pdf''
        = Some (Pdf [''/album/10/a.JPG'', ''/album/10/b.webp''])"
    by code_simp
  have open_ok: "writable ?off ''/album/10.pdf''"
    by (simp add: example_env_def)
  from batch_path_outcome [OF tmp(2) refl, of "''/album/10''" "[''a.JPG'', ''b.webp'']" Map.empty
      "''/album/10.pdf''"] one
  have "pil_strategy ?off ''/album/10'' [''a.JPG'', ''b.webp''] ''/album/10.pdf'' Map.empty
      = (case st_files (run_batches ?off ''/album/10'' ''/tmp/tmpk3v9'' [''a.JPG'', ''b.webp'']
                Map.empty) ''/tmp/tmpk3v9/temp_batch_1.pdf'' of
           Some c \<Rightarrow>
             if writable ?off ''/album/10.pdf''
             then (Some ''/album/10.pdf'',
                   cleanup ''/tmp/tmpk3v9''
                     ((st_files (run_batches ?off ''/album/10'' ''/tmp/tmpk3v9''
                         [''a.JPG'', ''b.webp''] Map.empty))(''/album/10.pdf'' \<mapsto> c)))
             else (None, cleanup ''/tmp/tmpk3v9''
                     (st_files (run_batches ?off ''/album/10'' ''/tmp/tmpk3v9''
                         [''a.JPG'', ''b.webp''] Map.empty)))
         | None \<Rightarrow> (None, cleanup ''/tmp/tmpk3v9''
                     (st_files (run_batches ?off ''/album/10'' ''/tmp/tmpk3v9''
                         [''a.JPG'', ''b.webp''] Map.empty))))"
    by blast
  with saved open_ok
  have second: "fst (pil_strategy ?off ''/album/10'' [''a.JPG'', ''b.webp''] ''/album/10.pdf''
      Map.empty) = Some ''/album/10.pdf''"
    by simp
  have two_off: "1 < length (temp_pdfs (run_batches ?off ''/album/1'' ''/tmp/tmpk3v9''
      chapter1_files Map.empty))"
    by code_simp
  have fails: "\<not> fst (merge_pdfs ?off
      (temp_pdfs (run_batches ?off ''/album/1'' ''/tmp/tmpk3v9'' chapter1_files Map.empty))
      ''/album/1.pdf''
      (st_files (run_batches ?off ''/album/1'' ''/tmp/tmpk3v9'' chapter1_files Map.empty)))"
    by (simp add: merge_pdfs_def)
  from batch_path_outcome [OF tmp(2) refl, of "''/album/1''" chapter1_files Map.empty
      "''/album/1.pdf''"] two_off fails
  have third: "fst (pil_strategy ?off ''/album/1'' chapter1_files ''/album/1.pdf'' Map.empty)
      = None"
    by simp
  have two: "1 < length (temp_pdfs (run_batches example_env ''/album/1'' ''/tmp/tmpk3v9''
      chapter1_files Map.empty))"
    by code_simp
  have merges: "fst (merge_pdfs example_env
      (temp_pdfs (run_batches example_env ''/album/1'' ''/tmp/tmpk3v9'' chapter1_files Map.empty))
      ''/album/1.pdf''
      (st_files (run_batches example_env ''/album/1'' ''/tmp/tmpk3v9'' chapter1_files
         Map.empty)))"
    by code_simp
  from batch_path_outcome [OF tmp(1) refl, of "''/album/1''" chapter1_files Map.empty
      "''/album/1.pdf''"] two merges
  have fourth: "fst (pil_strategy example_env ''/album/1'' chapter1_files ''/album/1.pdf''
      Map.empty) = Some ''/album/1.pdf''"
    by simp
  from first second third fourth show ?thesis
    by blast
qed

section \<open>The images held at once\<close>

lemma length_batch_files_pil: "length (batch_files_pil fs i) \<le> BATCH_SIZE"
  by (simp add: batch_files_pil_take_drop)

lemma held_le: "held s \<le> Suc (length (batch_images_pil s))"
proof -
  have "held s \<le> length (filter (\<lambda>n. n \<notin> set (closed_ids s)) (map ident (referenced s)))"
    unfolding held_def by (rule length_remdups_leq)
  also have "\<dots> \<le> length (map ident (referenced s))"
    by (rule length_filter_le)
  also have "\<dots> \<le> Suc (length (batch_images_pil s))"
    by (simp add: referenced_def split: option.splits)
  finally show ?thesis .
qed

lemma held_cong:
  "batch_images_pil s' = batch_images_pil s \<Longrightarrow> img s' = img s \<Longrightarrow>
   closed_ids s' = closed_ids s \<Longrightarrow> held s' = held s"
  by (simp add: held_def referenced_def)

lemma observe_fields:
  "st_files (observe k s) = st_files s"
  "temp_pdfs (observe k s) = temp_pdfs s"
  "batch_images_pil (observe k s) = batch_images_pil s"
  "img (observe k s) = img s"
  "created (observe k s) = created s"
  "closed_ids (observe k s) = closed_ids s"
  "slices (observe k s) = slices s"
  "peak (observe k s) = max (peak s) (held s + k)"
  "held (observe k s) = held s"
  by (simp_all add: observe_def held_def referenced_def)

lemma assign_img_fields:
  "st_files (assign_img new s) = st_files s"
  "temp_pdfs (assign_img new s) = temp_pdfs s"
  "batch_images_pil (assign_img new s) = batch_images_pil s"
  "img (assign_img new s) = Some new"
  "created (assign_img new s) = Suc (created s)"
  "closed_ids (assign_img new s) = closed_ids s"
  "slices (assign_img new s) = slices s"
  by (simp_all add: assign_img_def observe_fields)

lemma assign_img_peak:
  "peak (assign_img new s) \<le> max (peak s) (length (batch_images_pil s) + 2)"
  "peak s \<le> peak (assign_img new s)"
  "held (assign_img new s) \<le> peak (assign_img new s)"
proof -
  let ?s1 = "s\<lparr>created := Suc (created s)\<rparr>"
  let ?s2 = "(observe 1 ?s1)\<lparr>img := Some new\<rparr>"
  have h1: "held ?s1 \<le> Suc (length (batch_images_pil s))"
    using held_le [of ?s1] by simp
  have h2: "held ?s2 \<le> Suc (length (batch_images_pil s))"
    using held_le [of ?s2] by (simp add: observe_fields)
  have p: "peak (assign_img new s) = max (max (peak s) (held ?s1 + 1)) (held ?s2)"
    by (simp add: assign_img_def observe_fields)
  from h1 h2 show "peak (assign_img new s) \<le> max (peak s) (length (batch_images_pil s) + 2)"
    unfolding p by arith
  show "peak s \<le> peak (assign_img new s)"
    unfolding p by simp
  have "held (assign_img new s) = held ?s2"
    by (simp add: assign_img_def observe_fields)
  then show "held (assign_img new s) \<le> peak (assign_img new s)"
    unfolding p by simp
qed

lemma append_img_fields:
  "st_files (append_img s) = st_files s"
  "temp_pdfs (append_img s) = temp_pdfs s"
  "img (append_img s) = img s"
  "created (append_img s) = created s"
  "closed_ids (append_img s) = closed_ids s"
  "slices (append_img s) = slices s"
  "batch_images_pil (append_img s)
     = batch_images_pil s @ (case img s of None \<Rightarrow> [] | Some i \<Rightarrow> [i])"
  by (simp_all add: append_img_def observe_fields split: option.splits)

lemma append_img_peak:
  "peak (append_img s) \<le> max (peak s) (length (batch_images_pil s) + 2)"
  "peak s \<le> peak (append_img s)"
  "held s \<le> peak s \<Longrightarrow> held (append_img s) \<le> peak (append_img s)"
proof -
  show "peak (append_img s) \<le> max (peak s) (length (batch_images_pil s) + 2)"
  proof (cases "img s")
    case None
    then show ?thesis by (simp add: append_img_def)
  next
    case (Some i)
    let ?s1 = "s\<lparr>batch_images_pil := batch_images_pil s @ [i]\<rparr>"
    have "held ?s1 \<le> length (batch_images_pil s) + 2"
      using held_le [of ?s1] by simp
    moreover from Some have "peak (append_img s) = max (peak s) (held ?s1)"
      by (simp add: append_img_def observe_fields)
    ultimately show ?thesis
      by arith
  qed
  show "peak s \<le> peak (append_img s)"
    by (simp add: append_img_def observe_fields split: option.splits)
  show "held (append_img s) \<le> peak (append_img s)" if "held s \<le> peak s"
    using that by (simp add: append_img_def observe_fields split: option.splits)
qed

lemma open_image_unchanged:
  "st_files (open_image env d f s) = st_files s"
  "temp_pdfs (open_image env d f s) = temp_pdfs s"
  "slices (open_image env d f s) = slices s"
  "closed_ids (open_image env d f s) = closed_ids s"
  by (simp_all add: open_image_def Let_def assign_img_fields append_img_fields
      split: option.splits)

lemma open_image_batch:
  "batch_images_pil (open_image env d f s)
     = batch_images_pil s @ (if opens env d f then [the (img (open_image env d f s))] else [])"
  by (simp add: open_image_def opens_def Let_def assign_img_fields append_img_fields
      split: option.splits)

lemma open_image_img:
  assumes "opens env d f"
  shows "\<exists>i. img (open_image env d f s) = Some i \<and> source i = join d f \<and>
           image_pages i = kept_pages env d f \<and>
           ((loaded i \<or> decode_ok env (source i)) \<longleftrightarrow> decodes_at_save env d f)"
  using assms
  by (auto simp: open_image_def opens_def Let_def assign_img_fields append_img_fields
      image_pages_def kept_pages_def decodes_at_save_def split: option.splits)

lemma open_image_peak:
  "peak (open_image env d f s) \<le> max (peak s) (length (batch_images_pil s) + 2)"
proof (cases "Image_mode env (join d f)")
  case None
  then show ?thesis
    by (simp add: open_image_def)
next
  case (Some m)
  let ?bound = "max (peak s) (length (batch_images_pil s) + 2)"
  define opened where "opened = assign_img
      \<lparr>ident = created s, source = join d f, mode = m,
       n_frames = Suc (extra_frames env (join d f)), loaded = False\<rparr> s"
  define copied where "copied = assign_img
      \<lparr>ident = created opened, source = join d f, mode = ''RGB'',
       n_frames = 1, loaded = True\<rparr> opened"
  have run: "open_image env d f s =
      (if m \<noteq> ''RGB'' then (if convert_ok env (join d f) then append_img copied else opened)
       else append_img opened)"
    using Some by (simp add: open_image_def Let_def opened_def copied_def)
  have o: "peak opened \<le> ?bound" "length (batch_images_pil opened) = length (batch_images_pil s)"
    unfolding opened_def by (rule assign_img_peak(1)) (simp add: assign_img_fields)
  have "peak copied \<le> max (peak opened) (length (batch_images_pil opened) + 2)"
    unfolding copied_def by (rule assign_img_peak(1))
  with o have c: "peak copied \<le> ?bound"
    "length (batch_images_pil copied) = length (batch_images_pil s)"
    by (simp_all add: copied_def assign_img_fields)
  have "peak (append_img opened) \<le> max (peak opened) (length (batch_images_pil opened) + 2)"
    by (rule append_img_peak(1))
  with o have ao: "peak (append_img opened) \<le> ?bound"
    by simp
  have "peak (append_img copied) \<le> max (peak copied) (length (batch_images_pil copied) + 2)"
    by (rule append_img_peak(1))
  with c have ac: "peak (append_img copied) \<le> ?bound"
    by simp
  from o(1) ao ac show ?thesis
    unfolding run by simp
qed

lemma open_image_observed:
  "held s \<le> peak s \<Longrightarrow> held (open_image env d f s) \<le> peak (open_image env d f s)"
  by (simp add: open_image_def Let_def assign_img_peak(3) append_img_peak(3)
      split: option.splits)

lemma open_image_length:
  "length (batch_images_pil (open_image env d f s)) \<le> Suc (length (batch_images_pil s))"
  by (simp add: open_image_batch)

lemma open_images_Cons:
  "open_images env d (f # fs) s = open_images env d fs (open_image env d f s)"
  by (simp add: open_images_def)

lemma open_images_unchanged:
  "st_files (open_images env d fs s) = st_files s"
  "temp_pdfs (open_images env d fs s) = temp_pdfs s"
  "slices (open_images env d fs s) = slices s"
  "closed_ids (open_images env d fs s) = closed_ids s"
  by (induction fs arbitrary: s) (simp_all add: open_images_def open_image_unchanged)

lemma open_images_length:
  "length (batch_images_pil (open_images env d fs s)) \<le> length (batch_images_pil s) + length fs"
proof (induction fs arbitrary: s)
  case Nil
  show ?case by (simp add: open_images_def)
next
  case (Cons f fs)
  have "length (batch_images_pil (open_images env d fs (open_image env d f s)))
      \<le> length (batch_images_pil (open_image env d f s)) + length fs"
    by (rule Cons)
  also have "\<dots> \<le> Suc (length (batch_images_pil s)) + length fs"
    using open_image_length [of env d f s] by simp
  finally show ?case
    by (simp add: open_images_Cons)
qed

lemma open_images_peak:
  "peak (open_images env d fs s)
     \<le> max (peak s) (length (batch_images_pil s) + length fs + 1)"
proof (induction fs arbitrary: s)
  case Nil
  show ?case by (simp add: open_images_def)
next
  case (Cons f fs)
  have "peak (open_images env d fs (open_image env d f s))
      \<le> max (peak (open_image env d f s))
            (length (batch_images_pil (open_image env d f s)) + length fs + 1)"
    by (rule Cons)
  also have "\<dots> \<le> max (max (peak s) (length (batch_images_pil s) + 2))
            (Suc (length (batch_images_pil s)) + length fs + 1)"
    using open_image_peak [of env d f s] open_image_length [of env d f s]
    by (intro max.mono) simp_all
  also have "\<dots> \<le> max (peak s) (length (batch_images_pil s) + length (f # fs) + 1)"
    by simp
  finally show ?case
    by (simp add: open_images_Cons)
qed

lemma open_images_observed:
  "held s \<le> peak s \<Longrightarrow> held (open_images env d fs s) \<le> peak (open_images env d fs s)"
  by (induction fs arbitrary: s) (simp_all add: open_images_def open_image_observed)

text \<open>The images that the opening loop appends: one for every file that opens, in order,
  with the pages and the need to decode that the file has.\<close>

lemma open_images_batch:
  "map source (batch_images_pil (open_images env d fs s))
     = map source (batch_images_pil s) @ map (join d) (filter (opens env d) fs) \<and>
   concat (map image_pages (batch_images_pil (open_images env d fs s)))
     = concat (map image_pages (batch_images_pil s)) @
       concat (map (kept_pages env d) (filter (opens env d) fs)) \<and>
   (list_all (\<lambda>i. loaded i \<or> decode_ok env (source i))
      (batch_images_pil (open_images env d fs s)) \<longleftrightarrow>
    list_all (\<lambda>i. loaded i \<or> decode_ok env (source i)) (batch_images_pil s) \<and>
    list_all (decodes_at_save env d) (filter (opens env d) fs))"
proof (induction fs arbitrary: s)
  case Nil
  show ?case by (simp add: open_images_def)
next
  case (Cons f fs)
  show ?case
  proof (cases "opens env d f")
    case False
    then have "batch_images_pil (open_image env d f s) = batch_images_pil s"
      by (simp add: open_image_batch)
    with False Cons [of "open_image env d f s"] show ?thesis
      by (simp add: open_images_Cons)
  next
    case True
    from open_image_img [OF True, of s] obtain i
      where i: "img (open_image env d f s) = Some i" "source i = join d f"
        "image_pages i = kept_pages env d f"
        "(loaded i \<or> decode_ok env (source i)) \<longleftrightarrow> decodes_at_save env d f"
      by blast
    with True have "batch_images_pil (open_image env d f s) = batch_images_pil s @ [i]"
      by (simp add: open_image_batch)
    with True i Cons [of "open_image env d f s"] show ?thesis
      by (simp add: open_images_Cons)
  qed
qed

text \<open>In a settled state, the list holds all that is held.\<close>

lemma held_settled: "settled s \<Longrightarrow> held s \<le> length (batch_images_pil s)"
proof -
  assume "settled s"
  then have "set (referenced s) = set (batch_images_pil s)"
    by (auto simp: settled_def referenced_def split: option.splits)
  then have "set (filter (\<lambda>n. n \<notin> set (closed_ids s)) (map ident (referenced s)))
      \<subseteq> ident ` set (batch_images_pil s)"
    by auto
  then have "card (set (filter (\<lambda>n. n \<notin> set (closed_ids s)) (map ident (referenced s))))
      \<le> card (ident ` set (batch_images_pil s))"
    by (intro card_mono) simp_all
  also have "\<dots> \<le> card (set (batch_images_pil s))"
    by (rule card_image_le) simp
  also have "\<dots> \<le> length (batch_images_pil s)"
    by (rule card_length)
  finally show ?thesis
    by (simp add: held_def length_remdups_card_conv)
qed

lemma close_image_fields:
  "st_files (close_image env i s) = st_files s"
  "temp_pdfs (close_image env i s) = temp_pdfs s"
  "slices (close_image env i s) = slices s"
  "batch_images_pil (close_image env i s) = batch_images_pil s"
  "img (close_image env i s) = Some i"
  "set (closed_ids s) \<subseteq> set (closed_ids (close_image env i s))"
  "close_ok env (source i) \<Longrightarrow> ident i \<in> set (closed_ids (close_image env i s))"
  by (auto simp: close_image_def observe_fields)

lemma fold_close_image:
  "st_files (fold (close_image env) xs s) = st_files s"
  "temp_pdfs (fold (close_image env) xs s) = temp_pdfs s"
  "slices (fold (close_image env) xs s) = slices s"
  "batch_images_pil (fold (close_image env) xs s) = batch_images_pil s"
  by (induction xs arbitrary: s) (simp_all add: close_image_fields)

lemma fold_close_image_img:
  "xs \<noteq> [] \<Longrightarrow> img (fold (close_image env) xs s) = Some (last xs)"
proof (induction xs arbitrary: s)
  case Nil
  then show ?case by simp
next
  case (Cons x xs)
  then show ?case
    by (cases "xs = []") (simp_all add: close_image_fields)
qed

lemma fold_close_image_kept:
  "set (closed_ids s) \<subseteq> set (closed_ids (fold (close_image env) xs s))"
proof (induction xs arbitrary: s)
  case Nil
  show ?case by simp
next
  case (Cons x xs)
  have "set (closed_ids s) \<subseteq> set (closed_ids (close_image env x s))"
    by (rule close_image_fields)
  also have "\<dots> \<subseteq> set (closed_ids (fold (close_image env) xs (close_image env x s)))"
    by (rule Cons)
  finally show ?case
    by simp
qed

lemma fold_close_image_closed:
  "\<forall>p. close_ok env p \<Longrightarrow> x \<in> set xs \<Longrightarrow>
   ident x \<in> set (closed_ids (fold (close_image env) xs s))"
proof (induction xs arbitrary: s)
  case Nil
  then show ?case by simp
next
  case (Cons y ys)
  show ?case
  proof (cases "x \<in> set ys")
    case True
    with Cons show ?thesis
      by simp
  next
    case False
    with Cons.prems have "x = y"
      by simp
    with Cons.prems have "ident x \<in> set (closed_ids (close_image env y s))"
      by (simp add: close_image_fields)
    then show ?thesis
      using fold_close_image_kept [of "close_image env y s" env ys] by auto
  qed
qed

lemma close_images_fields:
  "st_files (close_images env s) = st_files s"
  "temp_pdfs (close_images env s) = temp_pdfs s"
  "slices (close_images env s) = slices s"
  "batch_images_pil (close_images env s) = []"
  by (simp_all add: close_images_def observe_fields fold_close_image)

lemma close_images_held:
  "held (close_images env s) \<le> 1"
  "held (close_images env s) \<le> peak (close_images env s)"
  "\<forall>p. close_ok env p \<Longrightarrow> batch_images_pil s \<noteq> [] \<Longrightarrow> held (close_images env s) = 0"
proof -
  show "held (close_images env s) \<le> 1"
    using held_le [of "close_images env s"] by (simp add: close_images_fields)
  show "held (close_images env s) \<le> peak (close_images env s)"
    by (simp add: close_images_def observe_fields)
  show "held (close_images env s) = 0"
    if allowed: "\<forall>p. close_ok env p" and some: "batch_images_pil s \<noteq> []"
  proof -
    let ?after = "fold (close_image env) (batch_images_pil s) s"
    from some have "img ?after = Some (last (batch_images_pil s))"
      by (rule fold_close_image_img)
    moreover from some have "last (batch_images_pil s) \<in> set (batch_images_pil s)"
      by simp
    with allowed have "ident (last (batch_images_pil s)) \<in> set (closed_ids ?after)"
      by (rule fold_close_image_closed)
    ultimately show ?thesis
      by (simp add: close_images_def observe_fields held_def referenced_def)
  qed
qed

text \<open>While the images of a batch are closed, \<^verbatim>\<open>img\<close> refers to images of the list.\<close>

lemma close_image_peak_member:
  assumes "i \<in> set (batch_images_pil s)"
  shows "peak (close_image env i s) \<le> max (peak s) (length (batch_images_pil s))"
proof -
  have "held x \<le> length (batch_images_pil s)"
    if "img x = Some i" and "batch_images_pil x = batch_images_pil s" for x
  proof -
    from that assms have "settled x"
      by (simp add: settled_def)
    then show ?thesis
      using held_settled [of x] that by simp
  qed
  then have closed: "held (s\<lparr>img := Some i, closed_ids := ident i # closed_ids s\<rparr>)
        \<le> length (batch_images_pil s)"
    and kept: "held (s\<lparr>img := Some i\<rparr>) \<le> length (batch_images_pil s)"
    by simp_all
  show ?thesis
  proof (cases "close_ok env (source i)")
    case True
    then have "peak (close_image env i s)
        = max (peak s) (held (s\<lparr>img := Some i, closed_ids := ident i # closed_ids s\<rparr>))"
      by (simp add: close_image_def observe_fields)
    with closed show ?thesis
      by arith
  next
    case False
    then have "peak (close_image env i s) = max (peak s) (held (s\<lparr>img := Some i\<rparr>))"
      by (simp add: close_image_def observe_fields)
    with kept show ?thesis
      by arith
  qed
qed

lemma fold_close_image_peak_member:
  "set xs \<subseteq> set (batch_images_pil s) \<Longrightarrow>
   peak (fold (close_image env) xs s) \<le> max (peak s) (length (batch_images_pil s))"
proof (induction xs arbitrary: s)
  case Nil
  show ?case by simp
next
  case (Cons x xs)
  from Cons.prems have "set xs \<subseteq> set (batch_images_pil (close_image env x s))"
    by (simp add: close_image_fields)
  then have "peak (fold (close_image env) xs (close_image env x s))
      \<le> max (peak (close_image env x s)) (length (batch_images_pil (close_image env x s)))"
    by (rule Cons.IH)
  also have "\<dots> \<le> max (peak s) (length (batch_images_pil s))"
    using close_image_peak_member [of x s env] Cons.prems by (simp add: close_image_fields)
  finally show ?case
    by simp
qed

lemma close_images_peak_member:
  "peak (close_images env s) \<le> max (peak s) (max 1 (length (batch_images_pil s)))"
proof -
  let ?after = "(fold (close_image env) (batch_images_pil s) s)\<lparr>batch_images_pil := []\<rparr>"
  have "held ?after \<le> 1"
    using held_le [of ?after] by simp
  moreover have "peak ?after \<le> max (peak s) (length (batch_images_pil s))"
    using fold_close_image_peak_member [of "batch_images_pil s" s env] by simp
  moreover have "peak (close_images env s) = max (peak ?after) (held ?after)"
    by (simp add: close_images_def observe_fields)
  ultimately show ?thesis
    by arith
qed

lemma save_batch_fields:
  "batch_images_pil (save_batch env p first others s) = batch_images_pil s"
  "img (save_batch env p first others s) = img s"
  "closed_ids (save_batch env p first others s) = closed_ids s"
  "peak (save_batch env p first others s) = peak s"
  "slices (save_batch env p first others s) = slices s"
  "held (save_batch env p first others s) = held s"
  by (simp_all add: save_batch_def Let_def held_def referenced_def)

text \<open>One turn of the loop over the batches, field by field.\<close>

lemma process_batch_fields:
  fixes env image_dir temp_dir image_files i s
  defines "saved \<equiv> batch_saved env image_dir temp_dir image_files i"
  shows "batch_images_pil (process_batch env image_dir temp_dir image_files i s) = []"
    and "slices (process_batch env image_dir temp_dir image_files i s)
      = slices s @ [batch_files_pil image_files i]"
    and "st_files (process_batch env image_dir temp_dir image_files i s)
      = (if saved
         then (st_files s)(temp_pdf_path temp_dir i \<mapsto>
                Pdf (batch_pages env image_dir image_files i))
         else st_files s)"
    and "temp_pdfs (process_batch env image_dir temp_dir image_files i s)
      = (if saved then temp_pdfs s @ [temp_pdf_path temp_dir i] else temp_pdfs s)"
    and "peak (process_batch env image_dir temp_dir image_files i s)
      \<le> max (peak s) (BATCH_SIZE + 1)"
    and "held (process_batch env image_dir temp_dir image_files i s) \<le> 1"
    and "held (process_batch env image_dir temp_dir image_files i s)
      \<le> peak (process_batch env image_dir temp_dir image_files i s)"
    and "\<forall>p. close_ok env p \<Longrightarrow> batch_opened env image_dir image_files i \<noteq> [] \<Longrightarrow>
      held (process_batch env image_dir temp_dir image_files i s) = 0"
proof -
  let ?slice = "batch_files_pil image_files i"
  let ?kept = "batch_opened env image_dir image_files i"
  let ?after = "process_batch env image_dir temp_dir image_files i s"
  define started where
    "started = observe 0 (s\<lparr>slices := slices s @ [?slice], batch_images_pil := []\<rparr>)"
  define opened where "opened = open_images env image_dir ?slice started"
  have started: "batch_images_pil started = []" "slices started = slices s @ [?slice]"
    "st_files started = st_files s" "temp_pdfs started = temp_pdfs s"
    "held started \<le> peak started"
    by (simp_all add: started_def observe_fields)
  have "held (s\<lparr>slices := slices s @ [?slice], batch_images_pil := []\<rparr>) \<le> 1"
    using held_le [of "s\<lparr>slices := slices s @ [?slice], batch_images_pil := []\<rparr>"] by simp
  then have started_peak: "peak started \<le> max (peak s) 1"
    by (simp add: started_def observe_fields)
  have same: "st_files opened = st_files s" "temp_pdfs opened = temp_pdfs s"
    "slices opened = slices s @ [?slice]"
    by (simp_all add: opened_def open_images_unchanged started)
  note view = open_images_batch [of env image_dir ?slice started, unfolded started(1),
      folded opened_def]
  from view have sources: "map source (batch_images_pil opened) = map (join image_dir) ?kept"
    by (simp add: batch_opened_def)
  from view have pages: "concat (map image_pages (batch_images_pil opened))
      = batch_pages env image_dir image_files i"
    by (simp add: batch_pages_def batch_opened_def)
  from view have decoded: "list_all (\<lambda>i. loaded i \<or> decode_ok env (source i))
      (batch_images_pil opened) \<longleftrightarrow> list_all (decodes_at_save env image_dir) ?kept"
    by (simp add: batch_opened_def)
  have "length (batch_images_pil opened) \<le> length (batch_images_pil started) + length ?slice"
    unfolding opened_def by (rule open_images_length)
  then have count: "length (batch_images_pil opened) \<le> BATCH_SIZE"
    using length_batch_files_pil [of image_files i] by (simp add: started)
  have "peak opened \<le> max (peak started) (length (batch_images_pil started) + length ?slice + 1)"
    unfolding opened_def by (rule open_images_peak)
  with started_peak have opened_peak: "peak opened \<le> max (peak s) (BATCH_SIZE + 1)"
    using length_batch_files_pil [of image_files i] by (simp add: started)
  have observed: "held opened \<le> peak opened"
    unfolding opened_def using started(5) by (rule open_images_observed)
  have all_fields: "batch_images_pil ?after = [] \<and>
      slices ?after = slices s @ [?slice] \<and>
      st_files ?after
        = (if saved
           then (st_files s)(temp_pdf_path temp_dir i \<mapsto>
                  Pdf (batch_pages env image_dir image_files i))
           else st_files s) \<and>
      temp_pdfs ?after
        = (if saved then temp_pdfs s @ [temp_pdf_path temp_dir i] else temp_pdfs s) \<and>
      peak ?after \<le> max (peak s) (BATCH_SIZE + 1) \<and>
      held ?after \<le> 1 \<and>
      held ?after \<le> peak ?after \<and>
      ((\<forall>p. close_ok env p) \<and> ?kept \<noteq> [] \<longrightarrow> held ?after = 0)"
  proof (cases "batch_images_pil opened")
    case Nil
    then have run: "?after = opened"
      unfolding process_batch_def Let_def started_def [symmetric] opened_def [symmetric]
      by simp
    from Nil sources have none: "?kept = []"
      by simp
    then have "\<not> saved"
      by (simp add: saved_def batch_saved_def)
    moreover from Nil have "held opened \<le> 1"
      using held_le [of opened] by simp
    ultimately show ?thesis
      unfolding run using Nil same opened_peak observed none by simp
  next
    case (Cons first others)
    let ?saving = "save_batch env (temp_pdf_path temp_dir i) first others opened"
    from Cons have run: "?after = close_images env ?saving"
      unfolding process_batch_def Let_def started_def [symmetric] opened_def [symmetric]
      by simp
    from Cons sources have some: "?kept \<noteq> []"
      by auto
    from Cons sources pages decoded some
    have test: "list_all (\<lambda>i. loaded i \<or> decode_ok env (source i)) (first # others) \<and>
        save_ok env (map source (first # others)) \<and>
        writable env (temp_pdf_path temp_dir i) \<longleftrightarrow> saved"
      and written: "concat (map image_pages (first # others))
        = batch_pages env image_dir image_files i"
      by (simp_all add: saved_def batch_saved_def)
    have files: "st_files ?saving
        = (if saved
           then (st_files s)(temp_pdf_path temp_dir i \<mapsto>
                  Pdf (batch_pages env image_dir image_files i))
           else st_files s)"
      and partials: "temp_pdfs ?saving
        = (if saved then temp_pdfs s @ [temp_pdf_path temp_dir i] else temp_pdfs s)"
      unfolding save_batch_def Let_def test written by (simp_all add: same)
    have "peak (close_images env ?saving)
        \<le> max (peak ?saving) (max 1 (length (batch_images_pil ?saving)))"
      by (rule close_images_peak_member)
    with opened_peak count have top: "peak (close_images env ?saving) \<le> max (peak s) (BATCH_SIZE + 1)"
      by (simp add: save_batch_fields)
    have "batch_images_pil ?saving \<noteq> []"
      using Cons by (simp add: save_batch_fields)
    then have released: "\<forall>p. close_ok env p \<Longrightarrow> held (close_images env ?saving) = 0"
      using close_images_held(3) [of env ?saving] by blast
    show ?thesis
      unfolding run
      using top released close_images_held(1,2) [of env ?saving]
      by (simp add: close_images_fields files partials same save_batch_fields)
  qed
  from all_fields
  show "batch_images_pil ?after = []"
    and "slices ?after = slices s @ [?slice]"
    and "st_files ?after
      = (if saved
         then (st_files s)(temp_pdf_path temp_dir i \<mapsto>
                Pdf (batch_pages env image_dir image_files i))
         else st_files s)"
    and "temp_pdfs ?after
      = (if saved then temp_pdfs s @ [temp_pdf_path temp_dir i] else temp_pdfs s)"
    and "peak ?after \<le> max (peak s) (BATCH_SIZE + 1)"
    and "held ?after \<le> 1"
    and "held ?after \<le> peak ?after"
    by blast+
  from all_fields show "held ?after = 0" if "\<forall>p. close_ok env p" and "?kept \<noteq> []"
    using that by blast
qed

text \<open>Without conversions.\<close>

lemma held_start: "batch_images_pil s = [] \<or> settled s \<Longrightarrow>
  Suc (held s) \<le> max 2 (Suc (length (batch_images_pil s)))"
  using held_le [of s] held_settled [of s] by auto

lemma assign_img_peak_eq:
  "peak (assign_img new s) = max (max (peak s) (Suc (held s))) (held (s\<lparr>img := Some new\<rparr>))"
proof -
  have "held (s\<lparr>created := Suc (created s)\<rparr>) = held s"
    by (rule held_cong) simp_all
  moreover have "held ((observe 1 (s\<lparr>created := Suc (created s)\<rparr>))\<lparr>img := Some new\<rparr>)
      = held (s\<lparr>img := Some new\<rparr>)"
    by (rule held_cong) (simp_all add: observe_fields)
  ultimately show ?thesis
    by (simp add: assign_img_def observe_fields)
qed

lemma open_image_no_conversion:
  assumes "no_conversion env d f" and "batch_images_pil s = [] \<or> settled s"
  shows "peak (open_image env d f s)
      \<le> max (peak s) (max 2 (Suc (length (batch_images_pil s))))"
    and "batch_images_pil (open_image env d f s) = [] \<or> settled (open_image env d f s)"
proof -
  have both: "peak (open_image env d f s)
      \<le> max (peak s) (max 2 (Suc (length (batch_images_pil s)))) \<and>
      (batch_images_pil (open_image env d f s) = [] \<or> settled (open_image env d f s))"
  proof (cases "Image_mode env (join d f)")
    case None
    with assms(2) show ?thesis
      by (simp add: open_image_def)
  next
    case (Some m)
    with assms(1) have rgb: "m = ''RGB''"
      by (simp add: no_conversion_def)
    define new where "new = \<lparr>ident = created s, source = join d f, mode = m,
       n_frames = Suc (extra_frames env (join d f)), loaded = False\<rparr>"
    have run: "open_image env d f s = append_img (assign_img new s)"
      using Some rgb by (simp add: open_image_def Let_def new_def)
    let ?appended = "(assign_img new s)\<lparr>batch_images_pil := batch_images_pil s @ [new]\<rparr>"
    have appended: "settled ?appended"
      by (simp add: settled_def assign_img_fields)
    then have "held ?appended \<le> length (batch_images_pil ?appended)"
      by (rule held_settled)
    then have last_step: "held ?appended \<le> Suc (length (batch_images_pil s))"
      by simp
    have "held (s\<lparr>img := Some new\<rparr>) \<le> Suc (length (batch_images_pil s))"
      using held_le [of "s\<lparr>img := Some new\<rparr>"] by simp
    with held_start [OF assms(2)]
    have first_step: "peak (assign_img new s)
        \<le> max (peak s) (max 2 (Suc (length (batch_images_pil s))))"
      unfolding assign_img_peak_eq by arith
    have "peak (append_img (assign_img new s)) = max (peak (assign_img new s)) (held ?appended)"
      by (simp add: append_img_def assign_img_fields observe_fields)
    with first_step last_step have "peak (append_img (assign_img new s))
        \<le> max (peak s) (max 2 (Suc (length (batch_images_pil s))))"
      by arith
    moreover have "settled (append_img (assign_img new s))"
      by (simp add: settled_def append_img_fields assign_img_fields)
    ultimately show ?thesis
      unfolding run by simp
  qed
  from both show "peak (open_image env d f s)
      \<le> max (peak s) (max 2 (Suc (length (batch_images_pil s))))"
    and "batch_images_pil (open_image env d f s) = [] \<or> settled (open_image env d f s)"
    by blast+
qed

lemma open_images_no_conversion:
  assumes "\<forall>f\<in>set fs. no_conversion env d f" and "batch_images_pil s = [] \<or> settled s"
  shows "peak (open_images env d fs s)
      \<le> max (peak s) (max 2 (length (batch_images_pil s) + length fs))"
  using assms
proof (induction fs arbitrary: s)
  case Nil
  show ?case by (simp add: open_images_def)
next
  case (Cons f fs)
  let ?next = "open_image env d f s"
  from Cons.prems have step: "no_conversion env d f" and rest: "\<forall>f\<in>set fs. no_conversion env d f"
    by simp_all
  note one = open_image_no_conversion [OF step Cons.prems(2)]
  have "peak (open_images env d fs ?next)
      \<le> max (peak ?next) (max 2 (length (batch_images_pil ?next) + length fs))"
    using rest one(2) by (rule Cons.IH)
  with one(1) open_image_length [of env d f s]
  have "peak (open_images env d fs ?next)
      \<le> max (peak s) (max 2 (length (batch_images_pil s) + length (f # fs)))"
    by simp
  then show ?case
    by (simp add: open_images_Cons)
qed

lemma process_batch_no_conversion:
  assumes "\<forall>f\<in>set (batch_files_pil image_files i). no_conversion env image_dir f"
  shows "peak (process_batch env image_dir temp_dir image_files i s) \<le> max (peak s) BATCH_SIZE"
proof -
  let ?slice = "batch_files_pil image_files i"
  let ?after = "process_batch env image_dir temp_dir image_files i s"
  define started where
    "started = observe 0 (s\<lparr>slices := slices s @ [?slice], batch_images_pil := []\<rparr>)"
  define opened where "opened = open_images env image_dir ?slice started"
  have empty: "batch_images_pil started = []"
    by (simp add: started_def observe_fields)
  have "held (s\<lparr>slices := slices s @ [?slice], batch_images_pil := []\<rparr>) \<le> 1"
    using held_le [of "s\<lparr>slices := slices s @ [?slice], batch_images_pil := []\<rparr>"] by simp
  then have started_peak: "peak started \<le> max (peak s) 1"
    by (simp add: started_def observe_fields)
  have "peak opened \<le> max (peak started) (max 2 (length (batch_images_pil started) + length ?slice))"
    unfolding opened_def using assms empty by (intro open_images_no_conversion) simp_all
  with started_peak length_batch_files_pil [of image_files i]
  have opened_peak: "peak opened \<le> max (peak s) BATCH_SIZE"
    by (simp add: empty BATCH_SIZE_def)
  have "length (batch_images_pil opened) \<le> length (batch_images_pil started) + length ?slice"
    unfolding opened_def by (rule open_images_length)
  then have count: "length (batch_images_pil opened) \<le> BATCH_SIZE"
    using length_batch_files_pil [of image_files i] by (simp add: empty)
  show ?thesis
  proof (cases "batch_images_pil opened")
    case Nil
    then have "?after = opened"
      unfolding process_batch_def Let_def started_def [symmetric] opened_def [symmetric]
      by simp
    with opened_peak show ?thesis
      by simp
  next
    case (Cons first others)
    let ?saving = "save_batch env (temp_pdf_path temp_dir i) first others opened"
    from Cons have run: "?after = close_images env ?saving"
      unfolding process_batch_def Let_def started_def [symmetric] opened_def [symmetric]
      by simp
    have "peak (close_images env ?saving)
        \<le> max (peak ?saving) (max 1 (length (batch_images_pil ?saving)))"
      by (rule close_images_peak_member)
    with opened_peak count show ?thesis
      unfolding run by (simp add: save_batch_fields BATCH_SIZE_def)
  qed
qed

text \<open>The loop over the batches.\<close>

lemma fold_process_batch_slices:
  "slices (fold (process_batch env image_dir temp_dir image_files) batches s)
     = slices s @ map (batch_files_pil image_files) batches"
  by (induction batches arbitrary: s) (simp_all add: process_batch_fields(2))

lemma fold_process_batch_peak:
  "peak (fold (process_batch env image_dir temp_dir image_files) batches s)
     \<le> max (peak s) (BATCH_SIZE + 1)"
proof (induction batches arbitrary: s)
  case Nil
  show ?case by simp
next
  case (Cons i batches)
  have "peak (fold (process_batch env image_dir temp_dir image_files) batches
           (process_batch env image_dir temp_dir image_files i s))
      \<le> max (peak (process_batch env image_dir temp_dir image_files i s)) (BATCH_SIZE + 1)"
    by (rule Cons)
  also have "\<dots> \<le> max (peak s) (BATCH_SIZE + 1)"
    using process_batch_fields(5) [of env image_dir temp_dir image_files i s] by simp
  finally show ?case
    by simp
qed

lemma fold_process_batch_no_conversion:
  "\<forall>i\<in>set batches. \<forall>f\<in>set (batch_files_pil image_files i). no_conversion env image_dir f \<Longrightarrow>
   peak (fold (process_batch env image_dir temp_dir image_files) batches s)
     \<le> max (peak s) BATCH_SIZE"
proof (induction batches arbitrary: s)
  case Nil
  show ?case by simp
next
  case (Cons i batches)
  from Cons.prems
  have "peak (fold (process_batch env image_dir temp_dir image_files) batches
           (process_batch env image_dir temp_dir image_files i s))
      \<le> max (peak (process_batch env image_dir temp_dir image_files i s)) BATCH_SIZE"
    by (intro Cons.IH) simp
  also have "\<dots> \<le> max (peak s) BATCH_SIZE"
    using process_batch_no_conversion [of image_files i env image_dir temp_dir s] Cons.prems
    by simp
  finally show ?case
    by simp
qed

lemma fold_process_batch_clears:
  "batch_images_pil s = [] \<Longrightarrow>
   batch_images_pil (fold (process_batch env image_dir temp_dir image_files) batches s) = []"
  by (induction batches arbitrary: s) (simp_all add: process_batch_fields(1))

lemma fold_process_batch_held:
  "held s \<le> 1 \<Longrightarrow>
   held (fold (process_batch env image_dir temp_dir image_files) batches s) \<le> 1"
proof (induction batches arbitrary: s)
  case Nil
  then show ?case by simp
next
  case (Cons i batches)
  have "held (process_batch env image_dir temp_dir image_files i s) \<le> 1"
    by (rule process_batch_fields(6))
  then have "held (fold (process_batch env image_dir temp_dir image_files) batches
      (process_batch env image_dir temp_dir image_files i s)) \<le> 1"
    by (rule Cons.IH)
  then show ?case
    by simp
qed

lemma in_batch_files_pil: "f \<in> set (batch_files_pil fs i) \<Longrightarrow> f \<in> set fs"
  unfolding batch_files_pil_take_drop by (meson in_set_dropD in_set_takeD)

text \<open>
  Claim C2, as amended. \<open>held\<close> counts the image objects that the converter holds, and
  \<open>peak\<close> records the greatest number of image objects that exist at once at any moment of
  the loop, the object included that the right-hand side of an assignment has made while
  \<^verbatim>\<open>img\<close> still refers to the former one. Whatever the number of images of the directory
  and whatever opens or fails, the peak is at most \<open>BATCH_SIZE + 1\<close>, which is 11: beside
  the images of the list, of which there are at most nine then, the opened image and its
  RGB copy exist while \<^verbatim>\<open>convert\<close> runs. When no image of the directory needs conversion,
  the peak is at most \<open>BATCH_SIZE\<close>. Every turn of the loop over the batches ends, whatever
  state it started in, with the list empty and at most one image held, the one \<^verbatim>\<open>img\<close>
  refers to; when \<^verbatim>\<open>close()\<close> does not raise and a file of the batch opened, it ends with
  no image held. So does the loop as a whole.
\<close>

theorem decoded_images_bounded:
  "peak (run_batches env image_dir temp_dir image_files fs) \<le> BATCH_SIZE + 1 \<and>
   BATCH_SIZE = 10 \<and>
   ((\<forall>f\<in>set image_files. no_conversion env image_dir f) \<longrightarrow>
      peak (run_batches env image_dir temp_dir image_files fs) \<le> BATCH_SIZE) \<and>
   batch_images_pil (run_batches env image_dir temp_dir image_files fs) = [] \<and>
   held (run_batches env image_dir temp_dir image_files fs) \<le> 1 \<and>
   (\<forall>i s. batch_images_pil (process_batch env image_dir temp_dir image_files i s) = [] \<and>
          held (process_batch env image_dir temp_dir image_files i s) \<le> 1 \<and>
          held (process_batch env image_dir temp_dir image_files i s)
            \<le> peak (process_batch env image_dir temp_dir image_files i s) \<and>
          peak (process_batch env image_dir temp_dir image_files i s)
            \<le> max (peak s) (BATCH_SIZE + 1) \<and>
          ((\<forall>p. close_ok env p) \<and>
           (\<exists>f\<in>set (batch_files_pil image_files i). opens env image_dir f) \<longrightarrow>
             held (process_batch env image_dir temp_dir image_files i s) = 0))"
proof -
  let ?start = "\<lparr>st_files = fs, temp_pdfs = [], batch_images_pil = [], img = None, created = 0,
      closed_ids = [], peak = 0, slices = []\<rparr>"
  let ?batches = "[0..<batch_count (length image_files)]"
  have bound: "peak (run_batches env image_dir temp_dir image_files fs) \<le> BATCH_SIZE + 1"
    using fold_process_batch_peak [of env image_dir temp_dir image_files ?batches ?start]
    by (simp add: run_batches_def)
  have ten: "BATCH_SIZE = 10"
    by (simp add: BATCH_SIZE_def)
  have tight: "peak (run_batches env image_dir temp_dir image_files fs) \<le> BATCH_SIZE"
    if "\<forall>f\<in>set image_files. no_conversion env image_dir f"
  proof -
    from that have "\<forall>i\<in>set ?batches. \<forall>f\<in>set (batch_files_pil image_files i).
        no_conversion env image_dir f"
      using in_batch_files_pil by blast
    from fold_process_batch_no_conversion [OF this, of temp_dir ?start] show ?thesis
      by (simp add: run_batches_def)
  qed
  have cleared: "batch_images_pil (run_batches env image_dir temp_dir image_files fs) = []"
    by (simp add: run_batches_def fold_process_batch_clears)
  have "held ?start \<le> 1"
    by (simp add: held_def referenced_def)
  then have rest: "held (run_batches env image_dir temp_dir image_files fs) \<le> 1"
    unfolding run_batches_def by (rule fold_process_batch_held)
  have released: "held (process_batch env image_dir temp_dir image_files i s) = 0"
    if "\<forall>p. close_ok env p"
      and "\<exists>f\<in>set (batch_files_pil image_files i). opens env image_dir f" for i s
  proof -
    from that(2) have "batch_opened env image_dir image_files i \<noteq> []"
      by (simp add: batch_opened_def filter_empty_conv)
    with that(1) show ?thesis
      by (rule process_batch_fields(8))
  qed
  from bound ten tight cleared rest released
    process_batch_fields(1,5,6,7) [of env image_dir temp_dir image_files]
  show ?thesis
    by blast
qed

text \<open>Twenty-five images, all of them RGB: ten are held at the peak, and no image is
  held when the third batch, or the loop, has ended.\<close>

theorem decoded_images_bounded_witness:
  "peak (run_batches example_env ''/d'' ''/tmp/tmpk3v9'' (map str_nat [1..<26]) Map.empty) = 10 \<and>
   batch_images_pil
     (run_batches example_env ''/d'' ''/tmp/tmpk3v9'' (map str_nat [1..<26]) Map.empty) = [] \<and>
   held (process_batch example_env ''/d'' ''/tmp/tmpk3v9'' (map str_nat [1..<26]) 2
           \<lparr>st_files = Map.empty, temp_pdfs = [], batch_images_pil = [], img = None,
            created = 0, closed_ids = [], peak = 0, slices = []\<rparr>) = 0"
proof -
  let ?s = "run_batches example_env ''/d'' ''/tmp/tmpk3v9'' (map str_nat [1..<26]) Map.empty"
  note bounded = decoded_images_bounded
    [of example_env "''/d''" "''/tmp/tmpk3v9''" "map str_nat [1..<26]" Map.empty]
  have rgb: "\<forall>f\<in>set (map str_nat [1..<26]). no_conversion example_env ''/d'' f"
    by code_simp
  with bounded have upper: "peak ?s \<le> BATCH_SIZE"
    by blast
  from bounded have ten: "BATCH_SIZE = 10" and cleared: "batch_images_pil ?s = []"
    by blast+
  have lower: "10 \<le> peak ?s"
    by code_simp
  from upper ten lower have top: "peak ?s = 10"
    by linarith
  have closes: "\<forall>p. close_ok example_env p"
    by (simp add: example_env_def)
  have some: "\<exists>f\<in>set (batch_files_pil (map str_nat [1..<26]) 2). opens example_env ''/d'' f"
    by code_simp
  from bounded closes some
  have "held (process_batch example_env ''/d'' ''/tmp/tmpk3v9'' (map str_nat [1..<26]) 2
           \<lparr>st_files = Map.empty, temp_pdfs = [], batch_images_pil = [], img = None,
            created = 0, closed_ids = [], peak = 0, slices = []\<rparr>) = 0"
    by blast
  with top cleared show ?thesis
    by blast
qed

text \<open>
  The claim as it is written, with the bound \<open>BATCH_SIZE\<close>, fails for a directory of ten
  images that are not RGB: while the tenth is converted (line 102), the nine converted
  images of the list, the opened tenth image and its RGB copy exist, which makes
  eleven, all of them decoded. After nine files the list holds nine decoded images, and
  the peak is ten.
\<close>

theorem decoded_images_counterexample:
  "peak (run_batches (example_env\<lparr>Image_mode := (\<lambda>p. Some ''RGBA'')\<rparr>) ''/d'' ''/tmp/tmpk3v9''
           (map str_nat [1..<11]) Map.empty) = 11 \<and>
   BATCH_SIZE = 10 \<and>
   length (map str_nat [1..<11]) = 10 \<and>
   map loaded (batch_images_pil
     (open_images (example_env\<lparr>Image_mode := (\<lambda>p. Some ''RGBA'')\<rparr>) ''/d''
        (map str_nat [1..<10])
        \<lparr>st_files = Map.empty, temp_pdfs = [], batch_images_pil = [], img = None, created = 0,
         closed_ids = [], peak = 0, slices = []\<rparr>)) = replicate 9 True \<and>
   peak (open_images (example_env\<lparr>Image_mode := (\<lambda>p. Some ''RGBA'')\<rparr>) ''/d''
           (map str_nat [1..<10])
           \<lparr>st_files = Map.empty, temp_pdfs = [], batch_images_pil = [], img = None, created = 0,
            closed_ids = [], peak = 0, slices = []\<rparr>) = 10"
  by code_simp

section \<open>The album driver\<close>

lemma finish_batches_result:
  "fst (finish_batches env ps output_pdf_path fs) = Some r \<Longrightarrow> r = output_pdf_path"
  by (auto simp: finish_batches_def split: if_splits option.splits prod.splits bool.splits)

lemma pil_strategy_result:
  "fst (pil_strategy env image_dir image_files output_pdf_path fs) = Some r
   \<Longrightarrow> r = output_pdf_path"
proof (cases "mkdtemp env")
  case None
  then show "fst (pil_strategy env image_dir image_files output_pdf_path fs) = Some r
      \<Longrightarrow> r = output_pdf_path"
    by (simp add: pil_strategy_def)
next
  case (Some temp_dir)
  assume "fst (pil_strategy env image_dir image_files output_pdf_path fs) = Some r"
  with Some have "fst (finish_batches env
      (temp_pdfs (run_batches env image_dir temp_dir image_files fs)) output_pdf_path
      (st_files (run_batches env image_dir temp_dir image_files fs))) = Some r"
    by (simp add: pil_strategy_def Let_def split: prod.splits)
  then show "r = output_pdf_path"
    by (rule finish_batches_result)
qed

lemma images_to_pdf_result:
  assumes "fst (images_to_pdf env image_dir output_pdf_path fs) = Some r"
  shows "r = output_pdf_path"
proof (cases "scandir env image_dir")
  case NoSuchDirectory
  with assms show ?thesis
    by (simp add: images_to_pdf_def)
next
  case ScanError
  with assms show ?thesis
    by (simp add: images_to_pdf_def)
next
  case (Entries entries)
  let ?files = "sort_image_files env (list_images entries)"
  show ?thesis
  proof (cases "?files \<noteq> [] \<and> makedirs_ok env output_pdf_path")
    case False
    with assms Entries show ?thesis
      by (auto simp: images_to_pdf_def Let_def split: if_splits)
  next
    case True
    show ?thesis
    proof (cases "use_img2pdf_strategy env image_dir ?files \<and>
        fst (fast_path env image_dir ?files output_pdf_path fs)")
      case True
      with assms Entries \<open>?files \<noteq> [] \<and> makedirs_ok env output_pdf_path\<close> show ?thesis
        by (simp add: images_to_pdf_def Let_def split: prod.splits)
    next
      case False
      with assms Entries \<open>?files \<noteq> [] \<and> makedirs_ok env output_pdf_path\<close>
      have "\<exists>fs'. fst (pil_strategy env image_dir ?files output_pdf_path fs') = Some r"
        by (auto simp: images_to_pdf_def Let_def split: prod.splits if_splits)
      then show ?thesis
        using pil_strategy_result by blast
    qed
  qed
qed

lemma chapter_pdf_not_empty: "chapter_pdf album_dir chapter \<noteq> []"
  by (simp add: chapter_pdf_def join_def)

lemma convert_chapters_refines:
  "convert_chapters env album_dir chapters pdf_paths fs
     = (pdf_paths @ map (chapter_pdf album_dir) (successful_chapters env album_dir chapters fs),
        fold (after_chapter env album_dir) chapters fs)"
proof (induction chapters arbitrary: pdf_paths fs)
  case Nil
  show ?case by simp
next
  case (Cons c rest)
  obtain result fs' where run:
    "images_to_pdf env (join album_dir c) (chapter_pdf album_dir c) fs = (result, fs')"
    by (cases "images_to_pdf env (join album_dir c) (chapter_pdf album_dir c) fs")
  have truthy: "(case result of None \<Rightarrow> False | Some r \<Rightarrow> r \<noteq> []) \<longleftrightarrow> result \<noteq> None"
    using images_to_pdf_result [of env "join album_dir c" "chapter_pdf album_dir c" fs] run
      chapter_pdf_not_empty [of album_dir c]
    by (cases result) auto
  have test: "(case result of None \<Rightarrow> False | Some r \<Rightarrow> r \<noteq> []) \<and>
      exists_path fs' (chapter_pdf album_dir c) \<and> size_positive fs' (chapter_pdf album_dir c)
      \<longleftrightarrow> chapter_succeeds env album_dir fs c"
    unfolding truthy by (simp add: chapter_succeeds_def valid_pdf_path_def run)
  have step: "convert_chapters env album_dir (c # rest) pdf_paths fs
      = convert_chapters env album_dir rest
          (if chapter_succeeds env album_dir fs c then pdf_paths @ [chapter_pdf album_dir c]
           else pdf_paths) fs'"
    using test by (simp add: Let_def chapter_pdf_def [symmetric] run)
  have next_fs: "after_chapter env album_dir c fs = fs'"
    by (simp add: after_chapter_def run)
  show ?case
    unfolding step Cons by (simp add: next_fs)
qed

lemma sort_chapters_cases:
  "((\<forall>c\<in>set cs. int_str env c \<noteq> None) \<longrightarrow>
      sort_chapters env cs = sort_key (\<lambda>c. the (int_str env c)) cs) \<and>
   ((\<exists>c\<in>set cs. int_str env c = None) \<longrightarrow> sort_chapters env cs = sort cs) \<and>
   mset (sort_chapters env cs) = mset cs"
proof -
  have numeric: "sort_chapters env cs = sort_key (\<lambda>c. the (int_str env c)) cs"
    if "\<forall>c\<in>set cs. int_str env c \<noteq> None"
    using that by (simp add: sort_chapters_def list_sort_key_Some)
  have fallback: "sort_chapters env cs = sort cs" if "\<exists>c\<in>set cs. int_str env c = None"
    using that by (simp add: sort_chapters_def list_sort_key_None)
  have "mset (sort_chapters env cs) = mset cs"
    using numeric fallback by (cases "\<forall>c\<in>set cs. int_str env c \<noteq> None") auto
  with numeric fallback show ?thesis
    by blast
qed

lemma successful_chapters_in_order:
  "\<exists>keep. length keep = length chapters \<and>
     successful_chapters env album_dir chapters fs = map fst (filter snd (zip chapters keep))"
proof (induction chapters arbitrary: fs)
  case Nil
  show ?case by simp
next
  case (Cons c rest)
  from Cons [of "after_chapter env album_dir c fs"] obtain keep
    where "length keep = length rest"
      and "successful_chapters env album_dir rest (after_chapter env album_dir c fs)
        = map fst (filter snd (zip rest keep))"
    by blast
  then have "length (chapter_succeeds env album_dir fs c # keep) = length (c # rest) \<and>
      successful_chapters env album_dir (c # rest) fs
        = map fst (filter snd (zip (c # rest) (chapter_succeeds env album_dir fs c # keep)))"
    by simp
  then show ?case
    by blast
qed

text \<open>
  Claim C9. Let the album be listed. The chapters are the names of its sub-directories
  and nothing else. They are processed in the stable numeric order when \<^verbatim>\<open>int\<close> reads an
  integer from every name, and in lexicographic order when it raises on some name; for a
  name of ASCII characters (at most 640 of them) it reads what \<open>py_int\<close> reads, whatever
  the environment. Every chapter of that list is converted, to the destination that
  joins the album and the chapter's name followed by \<^verbatim>\<open>.pdf\<close>, each in the file system its
  predecessor left, whether or not earlier chapters failed. The returned list holds the
  destinations of exactly the chapters that succeed (conversion not absent, file present
  and not empty), in the order of the chapters.
\<close>

theorem album_chapters:
  assumes "scandir env album_dir = Entries entries"
    and "sort_chapters env (list_chapters entries) = chapters"
  shows
    "set chapters = {name. (name, SubDirectory) \<in> set entries} \<and>
     mset chapters = mset (list_chapters entries) \<and>
     ((\<forall>c\<in>set chapters. int_str env c \<noteq> None) \<longrightarrow>
        chapters = sort_key (\<lambda>c. the (int_str env c)) (list_chapters entries) \<and>
        sorted (map (\<lambda>c. the (int_str env c)) chapters)) \<and>
     ((\<exists>c\<in>set chapters. int_str env c = None) \<longrightarrow>
        chapters = sort (list_chapters entries) \<and> sorted chapters) \<and>
     (\<forall>c. is_ascii c \<and> length c \<le> 640 \<longrightarrow> int_str env c = py_int c) \<and>
     fst (batch_chapter_to_pdfs env album_dir fs)
       = map (\<lambda>c. join album_dir (c @ ''.pdf'')) (successful_chapters env album_dir chapters fs) \<and>
     snd (batch_chapter_to_pdfs env album_dir fs)
       = fold (after_chapter env album_dir) chapters fs \<and>
     (\<exists>keep. length keep = length chapters \<and>
        successful_chapters env album_dir chapters fs = map fst (filter snd (zip chapters keep)))"
proof -
  note sorting = sort_chapters_cases [of "list_chapters entries" env, unfolded assms(2)]
  from sorting have perm: "mset chapters = mset (list_chapters entries)"
    by blast
  then have "set chapters = set (list_chapters entries)"
    by (rule mset_eq_setD)
  then have names: "set chapters = {name. (name, SubDirectory) \<in> set entries}"
    by (auto simp: list_chapters_def) force
  have numeric: "chapters = sort_key (\<lambda>c. the (int_str env c)) (list_chapters entries) \<and>
      sorted (map (\<lambda>c. the (int_str env c)) chapters)"
    if "\<forall>c\<in>set chapters. int_str env c \<noteq> None"
  proof -
    from that have "\<forall>c\<in>set (list_chapters entries). int_str env c \<noteq> None"
      using \<open>set chapters = set (list_chapters entries)\<close> by simp
    with sorting have "chapters = sort_key (\<lambda>c. the (int_str env c)) (list_chapters entries)"
      by blast
    then show ?thesis
      by simp
  qed
  have fallback: "chapters = sort (list_chapters entries) \<and> sorted chapters"
    if "\<exists>c\<in>set chapters. int_str env c = None"
  proof -
    from that have "\<exists>c\<in>set (list_chapters entries). int_str env c = None"
      using \<open>set chapters = set (list_chapters entries)\<close> by simp
    with sorting have "chapters = sort (list_chapters entries)"
      by blast
    then show ?thesis
      by simp
  qed
  have ascii: "\<forall>c. is_ascii c \<and> length c \<le> 640 \<longrightarrow> int_str env c = py_int c"
    by (simp add: int_str_def)
  have run: "batch_chapter_to_pdfs env album_dir fs
      = (map (chapter_pdf album_dir) (successful_chapters env album_dir chapters fs),
         fold (after_chapter env album_dir) chapters fs)"
    using assms by (simp add: batch_chapter_to_pdfs_def convert_chapters_refines)
  have dest: "chapter_pdf album_dir = (\<lambda>c. join album_dir (c @ ''.pdf''))"
    by (rule ext) (simp add: chapter_pdf_def)
  from run have returned: "fst (batch_chapter_to_pdfs env album_dir fs)
       = map (\<lambda>c. join album_dir (c @ ''.pdf'')) (successful_chapters env album_dir chapters fs)"
    and left: "snd (batch_chapter_to_pdfs env album_dir fs)
       = fold (after_chapter env album_dir) chapters fs"
    unfolding dest by simp_all
  from names perm numeric fallback ascii returned left
    successful_chapters_in_order [of chapters env album_dir fs]
  show ?thesis
    by blast
qed

text \<open>
  In the album: the chapters are taken as 1, 2, 10; chapter 2 fails, chapter 10 is
  converted all the same, and the PDFs of chapters 1 and 10 are returned. In an album
  whose chapters are named \<^verbatim>\<open>9\<close>, \<^verbatim>\<open>10\<close> and \<^verbatim>\<open>1\<close> followed by the separator 0x1F, which
  \<^verbatim>\<open>int\<close> does not strip, the chapters are taken in lexicographic order.
\<close>

theorem album_chapters_witness:
  "sort_chapters example_env (list_chapters [(''10'', SubDirectory), (''cover.jpg'', RegularFile),
      (''2'', SubDirectory), (''1'', SubDirectory)]) = [''1'', ''2'', ''10''] \<and>
   sort_key (\<lambda>c. the (int_str example_env c)) [''10'', ''2'', ''1''] = [''1'', ''2'', ''10''] \<and>
   fst (batch_chapter_to_pdfs example_env ''/album'' Map.empty)
     = [''/album/1.pdf'', ''/album/10.pdf''] \<and>
   sort_chapters example_env [''9'', ''10'', ''1'' @ [CHR 0x1F]]
     = sort [''9'', ''10'', ''1'' @ [CHR 0x1F]] \<and>
   sort [''9'', ''10'', ''1'' @ [CHR 0x1F]] = [''1'' @ [CHR 0x1F], ''10'', ''9'']"
proof -
  have listing: "scandir example_env ''/album''
      = Entries [(''10'', SubDirectory), (''cover.jpg'', RegularFile),
                 (''2'', SubDirectory), (''1'', SubDirectory)]"
    by (simp add: example_env_def)
  have order: "sort_chapters example_env (list_chapters [(''10'', SubDirectory),
      (''cover.jpg'', RegularFile), (''2'', SubDirectory), (''1'', SubDirectory)])
        = [''1'', ''2'', ''10'']"
    by code_simp
  note album = album_chapters [OF listing order, of Map.empty]
  have all_numbers: "\<forall>c\<in>set [''1'', ''2'', ''10'']. int_str example_env c \<noteq> None"
    by code_simp
  have subdirs: "list_chapters [(''10'', SubDirectory), (''cover.jpg'', RegularFile),
      (''2'', SubDirectory), (''1'', SubDirectory)] = [''10'', ''2'', ''1'']"
    by code_simp
  from album all_numbers
  have "[''1'', ''2'', ''10''] = sort_key (\<lambda>c. the (int_str example_env c))
      (list_chapters [(''10'', SubDirectory), (''cover.jpg'', RegularFile),
         (''2'', SubDirectory), (''1'', SubDirectory)])"
    by blast
  then have numeric: "sort_key (\<lambda>c. the (int_str example_env c)) [''10'', ''2'', ''1'']
      = [''1'', ''2'', ''10'']"
    unfolding subdirs by (rule sym)
  from album have "fst (batch_chapter_to_pdfs example_env ''/album'' Map.empty)
      = map (\<lambda>c. join ''/album'' (c @ ''.pdf''))
          (successful_chapters example_env ''/album'' [''1'', ''2'', ''10''] Map.empty)"
    by blast
  also have "\<dots> = [''/album/1.pdf'', ''/album/10.pdf'']"
    by code_simp
  finally have returned: "fst (batch_chapter_to_pdfs example_env ''/album'' Map.empty)
      = [''/album/1.pdf'', ''/album/10.pdf'']" .
  let ?names = "[''9'', ''10'', ''1'' @ [CHR 0x1F]]"
  let ?other = "example_env\<lparr>scandir := (\<lambda>d. Entries (map (\<lambda>c. (c, SubDirectory)) ?names))\<rparr>"
  have listing2: "scandir ?other ''/other'' = Entries (map (\<lambda>c. (c, SubDirectory)) ?names)"
    by simp
  have unstripped: "\<exists>c\<in>set (sort_chapters ?other
      (list_chapters (map (\<lambda>c. (c, SubDirectory)) ?names))). int_str ?other c = None"
    by code_simp
  with album_chapters [OF listing2 refl, of Map.empty]
  have "sort_chapters ?other (list_chapters (map (\<lambda>c. (c, SubDirectory)) ?names))
      = sort (list_chapters (map (\<lambda>c. (c, SubDirectory)) ?names))"
    by blast
  moreover have "list_chapters (map (\<lambda>c. (c, SubDirectory)) ?names) = ?names"
    by code_simp
  moreover have "int_str ?other = int_str example_env"
    by (intro ext) (simp add: int_str_def)
  then have "sort_chapters ?other = sort_chapters example_env"
    by (intro ext) (simp add: sort_chapters_def)
  ultimately have fallback: "sort_chapters example_env ?names = sort ?names"
    by simp
  have lexicographic: "sort ?names = [''1'' @ [CHR 0x1F], ''10'', ''9'']"
    by code_simp
  from order numeric returned fallback lexicographic show ?thesis
    by blast
qed

section \<open>The pages of the batch path\<close>

text \<open>The partial PDFs of different batches have different paths, all of them in the
  temporary directory.\<close>

lemma str_nat_not_empty: "str_nat n \<noteq> []"
  by (subst str_nat.simps) simp

lemma digit_char_inj:
  assumes "a < 10" and "b < 10" and "''0123456789'' ! a = ''0123456789'' ! b"
  shows "a = b"
proof -
  have "distinct ''0123456789''"
    by simp
  with assms show ?thesis
    by (simp add: nth_eq_iff_index_eq)
qed

lemma str_nat_inj: "str_nat a = str_nat b \<Longrightarrow> a = b"
proof (induction a arbitrary: b rule: str_nat.induct)
  case (1 a)
  show ?case
  proof (cases "a < 10")
    case small_a: True
    show ?thesis
    proof (cases "b < 10")
      case True
      with small_a "1.prems" have "''0123456789'' ! a = ''0123456789'' ! b"
        by (simp add: str_nat.simps [of a] str_nat.simps [of b] del: str_nat.simps)
      with small_a True show ?thesis
        by (rule digit_char_inj)
    next
      case False
      with small_a "1.prems" have "str_nat (b div 10) = []"
        by (simp add: str_nat.simps [of a] str_nat.simps [of b] del: str_nat.simps)
      then show ?thesis
        by (simp add: str_nat_not_empty del: str_nat.simps)
    qed
  next
    case large_a: False
    show ?thesis
    proof (cases "b < 10")
      case True
      with large_a "1.prems" have "str_nat (a div 10) = []"
        by (simp add: str_nat.simps [of a] str_nat.simps [of b] del: str_nat.simps)
      then show ?thesis
        by (simp add: str_nat_not_empty del: str_nat.simps)
    next
      case False
      with large_a "1.prems" have tens: "str_nat (a div 10) = str_nat (b div 10)"
        and units: "''0123456789'' ! (a mod 10) = ''0123456789'' ! (b mod 10)"
        by (simp_all add: str_nat.simps [of a] str_nat.simps [of b] del: str_nat.simps)
      from large_a tens have "a div 10 = b div 10"
        by (rule "1.IH")
      moreover from units have "a mod 10 = b mod 10"
        by (intro digit_char_inj) simp_all
      ultimately show ?thesis
        by (metis div_mult_mod_eq)
    qed
  qed
qed

lemma join_relative:
  "name \<noteq> [] \<Longrightarrow> hd name \<noteq> CHR ''/'' \<Longrightarrow> join d name = join d [] @ name"
  by (simp add: join_def)

lemma temp_pdf_path_split:
  "temp_pdf_path temp_dir i = join temp_dir [] @ ''temp_batch_'' @ str_nat (i + 1) @ ''.pdf''"
  unfolding temp_pdf_path_def by (subst join_relative) simp_all

lemma temp_pdf_path_inj: "temp_pdf_path temp_dir i = temp_pdf_path temp_dir j \<Longrightarrow> i = j"
proof -
  assume "temp_pdf_path temp_dir i = temp_pdf_path temp_dir j"
  then have "str_nat (i + 1) = str_nat (j + 1)"
    unfolding temp_pdf_path_split by simp
  then have "i + 1 = j + 1"
    by (rule str_nat_inj)
  then show "i = j"
    by simp
qed

lemma temp_pdf_path_under: "is_under temp_dir (temp_pdf_path temp_dir i)"
  unfolding is_under_def temp_pdf_path_split by simp

text \<open>What the loop over the batches leaves: the paths of the saved batches in
  \<^verbatim>\<open>temp_pdfs\<close>, their pages in the files of these paths, and every other file as it was.\<close>

lemma fold_temp_pdfs:
  "temp_pdfs (fold (process_batch env image_dir temp_dir image_files) batches s)
     = temp_pdfs s @
       map (temp_pdf_path temp_dir) (filter (batch_saved env image_dir temp_dir image_files) batches)"
  by (induction batches arbitrary: s) (simp_all add: process_batch_fields(4))

lemma fold_st_files_other:
  "\<forall>i\<in>set batches. temp_pdf_path temp_dir i \<noteq> p \<Longrightarrow>
   st_files (fold (process_batch env image_dir temp_dir image_files) batches s) p = st_files s p"
  by (induction batches arbitrary: s) (auto simp: process_batch_fields(3))

lemma fold_st_files_saved:
  assumes "distinct batches" and "i \<in> set batches"
    and "batch_saved env image_dir temp_dir image_files i"
  shows "st_files (fold (process_batch env image_dir temp_dir image_files) batches s)
           (temp_pdf_path temp_dir i)
         = Some (Pdf (batch_pages env image_dir image_files i))"
  using assms
proof (induction batches arbitrary: s)
  case Nil
  then show ?case by simp
next
  case (Cons j batches)
  show ?case
  proof (cases "i \<in> set batches")
    case True
    with Cons show ?thesis
      by simp
  next
    case False
    with Cons.prems have same: "j = i"
      by simp
    from False have "\<forall>k\<in>set batches. temp_pdf_path temp_dir k \<noteq> temp_pdf_path temp_dir i"
      using temp_pdf_path_inj by blast
    then have "st_files (fold (process_batch env image_dir temp_dir image_files) batches
          (process_batch env image_dir temp_dir image_files i s)) (temp_pdf_path temp_dir i)
        = st_files (process_batch env image_dir temp_dir image_files i s)
            (temp_pdf_path temp_dir i)"
      by (rule fold_st_files_other)
    with Cons.prems(3) same show ?thesis
      by (simp add: process_batch_fields(3))
  qed
qed

text \<open>The partial PDFs after the loop: one for every saved batch, with its pages.\<close>

lemma run_batches_partials:
  fixes env image_dir temp_dir image_files fs
  defines "s \<equiv> run_batches env image_dir temp_dir image_files fs"
  shows "temp_pdfs s
      = map (temp_pdf_path temp_dir) (saved_batches env image_dir temp_dir image_files)"
    and "map (pdf_pages (st_files s)) (temp_pdfs s)
      = map (batch_pages env image_dir image_files)
          (saved_batches env image_dir temp_dir image_files)"
    and "\<forall>p\<in>set (temp_pdfs s). \<exists>pages. st_files s p = Some (Pdf pages)"
proof -
  let ?batches = "[0..<batch_count (length image_files)]"
  let ?saved = "saved_batches env image_dir temp_dir image_files"
  show partials: "temp_pdfs s = map (temp_pdf_path temp_dir) ?saved"
    by (simp add: s_def run_batches_def fold_temp_pdfs saved_batches_def)
  have contents: "st_files s (temp_pdf_path temp_dir i)
      = Some (Pdf (batch_pages env image_dir image_files i))" if "i \<in> set ?saved" for i
    unfolding s_def run_batches_def using that
    by (intro fold_st_files_saved) (simp_all add: saved_batches_def)
  then show "map (pdf_pages (st_files s)) (temp_pdfs s)
      = map (batch_pages env image_dir image_files) ?saved"
    unfolding partials by (simp add: pdf_pages_def)
  from contents show "\<forall>p\<in>set (temp_pdfs s). \<exists>pages. st_files s p = Some (Pdf pages)"
    unfolding partials by auto
qed








section \<open>The slices of the loop\<close>

lemma batch_files_pil_not_empty:
  assumes "i < batch_count (length fs)"
  shows "batch_files_pil fs i \<noteq> []"
proof -
  from assms have positive: "0 < length fs"
    by (cases "length fs = 0") (simp_all add: batch_count_def BATCH_SIZE_def)
  from assms have "i * BATCH_SIZE \<le> (batch_count (length fs) - 1) * BATCH_SIZE"
    by (intro mult_le_mono1) simp
  also have "\<dots> < length fs"
    using positive by (rule batch_count_bounds(2))
  finally show ?thesis
    by (simp add: batch_files_pil_take_drop BATCH_SIZE_def)
qed

text \<open>
  Claim C4. Let \<open>s\<close> be the state after the loop over the batches, so that \<open>slices s\<close>
  holds the slices that the loop has taken from the sorted list, one for every turn, in
  order. The slices concatenate to the list itself: they are contiguous, and nothing is
  left out or taken twice. Their number is the ceiling of the number of images over the
  batch size. The slice of turn \<open>i\<close> holds the \<open>BATCH_SIZE\<close> elements from position
  \<open>i * BATCH_SIZE\<close> on; every slice but the last holds exactly \<open>BATCH_SIZE\<close> images, the
  last one at least one and at most \<open>BATCH_SIZE\<close>. Twenty-five images make slices of 10,
  10 and 5. When every image opens, decodes and has one frame, and every batch can be
  saved, the loop leaves one partial PDF for every slice, in order, whose pages are the
  images of the slice.
\<close>

theorem batches_partition:
  assumes "run_batches env image_dir temp_dir image_files fs = s"
  shows
    "concat (slices s) = image_files \<and>
     int (length (slices s)) = \<lceil>real (length image_files) / real BATCH_SIZE\<rceil> \<and>
     (\<forall>i<length (slices s).
        slices s ! i = take BATCH_SIZE (drop (i * BATCH_SIZE) image_files)) \<and>
     (\<forall>i. Suc i < length (slices s) \<longrightarrow> length (slices s ! i) = BATCH_SIZE) \<and>
     (image_files \<noteq> [] \<longrightarrow>
        slices s \<noteq> [] \<and> 0 < length (last (slices s)) \<and>
        length (last (slices s)) \<le> BATCH_SIZE) \<and>
     (length image_files = 25 \<longrightarrow> map length (slices s) = [10, 10, 5]) \<and>
     ((\<forall>f\<in>set image_files. opens env image_dir f \<and> decodes_at_save env image_dir f \<and>
          kept_pages env image_dir f = [join image_dir f]) \<and>
      (\<forall>pages. save_ok env pages) \<and> (\<forall>i. writable env (temp_pdf_path temp_dir i)) \<longrightarrow>
        map (pdf_pages (st_files s)) (temp_pdfs s) = map (map (join image_dir)) (slices s))"
proof -
  let ?n = "length image_files"
  let ?batches = "[0..<batch_count ?n]"
  have taken: "slices s = map (batch_files_pil image_files) ?batches"
    using fold_process_batch_slices [of env image_dir temp_dir image_files ?batches]
    by (simp add: assms [symmetric] run_batches_def)
  then have count: "length (slices s) = batch_count ?n"
    by simp
  have slice: "slices s ! i = batch_files_pil image_files i" if "i < batch_count ?n" for i
    using that by (simp add: taken)
  have cover: "concat (slices s) = image_files"
    unfolding taken using batch_count_bounds(1) [of ?n] by (simp add: concat_batches_take)
  have ceiling: "int (length (slices s)) = \<lceil>real ?n / real BATCH_SIZE\<rceil>"
    unfolding count by (rule batch_count_ceiling)
  have position: "\<forall>i<length (slices s).
      slices s ! i = take BATCH_SIZE (drop (i * BATCH_SIZE) image_files)"
    by (simp add: count slice batch_files_pil_take_drop)
  have full: "length (slices s ! i) = BATCH_SIZE" if "Suc i < length (slices s)" for i
  proof -
    from that have inside: "Suc i < batch_count ?n"
      by (simp add: count)
    then have "Suc i * BATCH_SIZE \<le> (batch_count ?n - 1) * BATCH_SIZE"
      by (intro mult_le_mono1) simp
    also have "\<dots> < ?n"
      using inside batch_count_bounds(2) [of ?n]
      by (cases "?n = 0") (simp_all add: batch_count_def BATCH_SIZE_def)
    finally have "length (batch_files_pil image_files i) = BATCH_SIZE"
      by (simp add: batch_files_pil_take_drop)
    with inside show ?thesis
      by (simp add: slice)
  qed
  have final: "slices s \<noteq> [] \<and> 0 < length (last (slices s)) \<and>
      length (last (slices s)) \<le> BATCH_SIZE" if "image_files \<noteq> []"
  proof -
    from that have "0 < ?n"
      by simp
    then have positive: "0 < batch_count ?n"
      unfolding batch_count_def BATCH_SIZE_def by arith
    then have some: "slices s \<noteq> []"
      using count by auto
    then have "last (slices s) = slices s ! (batch_count ?n - 1)"
      by (simp add: last_conv_nth count)
    also have "\<dots> = batch_files_pil image_files (batch_count ?n - 1)"
      using positive by (intro slice) simp
    finally have end_slice: "last (slices s) = batch_files_pil image_files (batch_count ?n - 1)" .
    have "batch_files_pil image_files (batch_count ?n - 1) \<noteq> []"
      using positive by (intro batch_files_pil_not_empty) simp
    with some end_slice show ?thesis
      by (simp add: length_batch_files_pil)
  qed
  have example: "map length (slices s) = [10, 10, 5]" if "?n = 25"
  proof -
    have "batch_count 25 = 3"
      by (simp add: batch_count_def BATCH_SIZE_def)
    moreover have "[0..<3] = [0, 1, 2]"
      by (simp add: upt_rec)
    ultimately show ?thesis
      using that by (simp add: taken batch_files_pil_take_drop BATCH_SIZE_def)
  qed
  have partials: "map (pdf_pages (st_files s)) (temp_pdfs s)
      = map (map (join image_dir)) (slices s)"
    if all_open: "\<forall>f\<in>set image_files. opens env image_dir f \<and>
        decodes_at_save env image_dir f \<and> kept_pages env image_dir f = [join image_dir f]"
      and saves: "\<forall>pages. save_ok env pages"
      and writes: "\<forall>i. writable env (temp_pdf_path temp_dir i)"
  proof -
    have in_list: "\<forall>f\<in>set (batch_files_pil image_files i). opens env image_dir f \<and>
        decodes_at_save env image_dir f \<and> kept_pages env image_dir f = [join image_dir f]" for i
      using all_open in_batch_files_pil [of _ image_files i] by blast
    then have kept: "batch_opened env image_dir image_files i = batch_files_pil image_files i"
      for i
      by (simp add: batch_opened_def)
    have pages: "batch_pages env image_dir image_files i
        = map (join image_dir) (batch_files_pil image_files i)" for i
    proof -
      have "concat (map (kept_pages env image_dir) xs) = map (join image_dir) xs"
        if "\<forall>f\<in>set xs. kept_pages env image_dir f = [join image_dir f]" for xs
        using that by (induction xs) simp_all
      with in_list [of i] show ?thesis
        by (simp add: batch_pages_def kept)
    qed
    have "batch_saved env image_dir temp_dir image_files i" if "i \<in> set ?batches" for i
    proof -
      from that have "batch_files_pil image_files i \<noteq> []"
        by (intro batch_files_pil_not_empty) simp
      with in_list [of i] saves writes show ?thesis
        by (simp add: batch_saved_def kept list_all_iff)
    qed
    then have "saved_batches env image_dir temp_dir image_files = ?batches"
      by (simp add: saved_batches_def)
    with run_batches_partials(2) [of env image_dir temp_dir image_files fs]
    have "map (pdf_pages (st_files s)) (temp_pdfs s)
        = map (batch_pages env image_dir image_files) ?batches"
      by (simp add: assms)
    also have "\<dots> = map (map (join image_dir)) (slices s)"
      by (simp add: taken pages)
    finally show ?thesis .
  qed
  from cover ceiling position full final example partials show ?thesis
    by blast
qed

text \<open>Twenty-five images that open: the loop takes slices of 10, 10 and 5 images that
  make up the list, and leaves three partial PDFs of 10, 10 and 5 pages.\<close>

theorem batches_partition_witness:
  "map length (slices
      (run_batches example_env ''/d'' ''/tmp/tmpk3v9'' (map str_nat [1..<26]) Map.empty))
     = [10, 10, 5] \<and>
   concat (slices
      (run_batches example_env ''/d'' ''/tmp/tmpk3v9'' (map str_nat [1..<26]) Map.empty))
     = map str_nat [1..<26] \<and>
   map (\<lambda>p. length (pdf_pages (st_files
          (run_batches example_env ''/d'' ''/tmp/tmpk3v9'' (map str_nat [1..<26]) Map.empty)) p))
     (temp_pdfs
        (run_batches example_env ''/d'' ''/tmp/tmpk3v9'' (map str_nat [1..<26]) Map.empty))
     = [10, 10, 5]"
proof -
  let ?fs = "map str_nat [1..<26]"
  let ?s = "run_batches example_env ''/d'' ''/tmp/tmpk3v9'' ?fs Map.empty"
  note facts = batches_partition [OF refl, of example_env "''/d''" "''/tmp/tmpk3v9''" ?fs Map.empty]
  have len: "length ?fs = 25"
    by simp
  with facts have lengths: "map length (slices ?s) = [10, 10, 5]"
    by blast
  from facts have cover: "concat (slices ?s) = ?fs"
    by blast
  have all_open: "\<forall>f\<in>set ?fs. opens example_env ''/d'' f \<and>
      decodes_at_save example_env ''/d'' f \<and> kept_pages example_env ''/d'' f = [join ''/d'' f]"
    by code_simp
  have saves: "\<forall>pages. save_ok example_env pages"
    and writes: "\<forall>i. writable example_env (temp_pdf_path ''/tmp/tmpk3v9'' i)"
    by (simp_all add: example_env_def)
  from facts all_open saves writes
  have "map (pdf_pages (st_files ?s)) (temp_pdfs ?s) = map (map (join ''/d'')) (slices ?s)"
    by blast
  then have "map length (map (pdf_pages (st_files ?s)) (temp_pdfs ?s))
      = map length (map (map (join ''/d'')) (slices ?s))"
    by (rule arg_cong)
  then have "map (\<lambda>p. length (pdf_pages (st_files ?s) p)) (temp_pdfs ?s) = map length (slices ?s)"
    by (simp add: comp_def)
  with lengths cover show ?thesis
    by simp
qed

section \<open>Skipping an image that does not open\<close>




text \<open>
  Outside the amended claim: an image whose pixels do not decode, and which line 104
  does not skip. The truncated image \<^verbatim>\<open>2.jpg\<close> is RGB, so that nothing decodes it before
  \<^verbatim>\<open>save\<close> (line 113); there the exception is caught at line 119, and the whole batch is
  dropped. The two sound images of the directory are lost with it, and the conversion
  returns \<^verbatim>\<open>None\<close>.
\<close>

lemma truncated_image_loses_batch:
  "sort_image_files truncated_env
     (list_images [(''1.jpg'', RegularFile), (''2.jpg'', RegularFile), (''3.jpg'', RegularFile)])
     = [''1.jpg'', ''2.jpg'', ''3.jpg''] \<and>
   filter (opens truncated_env ''/cut'') [''1.jpg'', ''2.jpg'', ''3.jpg'']
     = [''1.jpg'', ''2.jpg'', ''3.jpg''] \<and>
   filter (decodes_at_save truncated_env ''/cut'') [''1.jpg'', ''2.jpg'', ''3.jpg'']
     = [''1.jpg'', ''3.jpg''] \<and>
   temp_pdfs (run_batches truncated_env ''/cut'' ''/tmp/tmpk3v9'' [''1.jpg'', ''2.jpg'', ''3.jpg'']
                Map.empty) = [] \<and>
   fst (images_to_pdf truncated_env ''/cut'' ''/cut.pdf'' Map.empty) = None"
  by code_simp


end
